theory Spec2Isabelle
  imports Complex_Main
begin

section \<open>Python values used by the program\<close>

text \<open>
  Exceptions of the source are values. \<open>OtherError\<close> stands for any exception the
  external services (TensorFlow session, file system, dataset sampler) may raise.
\<close>

datatype py_exn =
    AssertionError
  | ZeroDivisionError
  | IndexError
  | ValueError
  | KeyboardInterrupt
  | OtherError string

text \<open>Truthiness of an optional string, an optional list and an optional integer.\<close>

definition truthy_str :: "string option \<Rightarrow> bool" where
  "truthy_str x = (case x of None \<Rightarrow> False | Some s \<Rightarrow> s \<noteq> [])"

definition truthy_list :: "'a list option \<Rightarrow> bool" where
  "truthy_list x = (case x of None \<Rightarrow> False | Some s \<Rightarrow> s \<noteq> [])"

definition truthy_int :: "int option \<Rightarrow> bool" where
  "truthy_int x = (case x of None \<Rightarrow> False | Some n \<Rightarrow> n \<noteq> 0)"

text \<open>The slice \<open>xs[k:]\<close>; a negative \<open>k\<close> counts from the end.\<close>

definition slice_from :: "'a list \<Rightarrow> int \<Rightarrow> 'a list" where
  "slice_from xs k =
     (if k < 0 then drop (nat (int (length xs) + k)) xs else drop (nat k) xs)"

text \<open>\<open>s.lstrip('\n')\<close>.\<close>

definition lstrip_nl :: "string \<Rightarrow> string" where
  "lstrip_nl s = dropWhile (\<lambda>c. c = CHR 0x0A) s"

text \<open>\<open>s.find(t)\<close>: the index of the first occurrence of \<open>t\<close> in \<open>s\<close>.\<close>

fun starts_with :: "'a list \<Rightarrow> 'a list \<Rightarrow> bool" where
  "starts_with [] s = True"
| "starts_with (x # t) [] = False"
| "starts_with (x # t) (y # s) = (x = y \<and> starts_with t s)"

fun find_sub :: "'a list \<Rightarrow> 'a list \<Rightarrow> nat option" where
  "find_sub t [] = (if t = [] then Some 0 else None)"
| "find_sub t (c # s) =
     (if starts_with t (c # s) then Some 0
      else (case find_sub t s of None \<Rightarrow> None | Some k \<Rightarrow> Some (Suc k)))"

definition contains :: "'a list \<Rightarrow> 'a list \<Rightarrow> bool" where
  "contains t s = (find_sub t s \<noteq> None)"

text \<open>
  \<open>re.search(pattern, to_trunc, re.S)\<close> followed by \<open>group(1)\<close>, for the two patterns the
  source builds from escaped literals. Without a prefix the pattern is
  \<open>(.*?)(?:T)\<close>: the lazy group is the text before the first occurrence of \<open>T\<close>.
  With a prefix the pattern is \<open>(?:P)(.*?)(?:T)\<close>: the match starts at the first
  occurrence of \<open>P\<close> and the group runs up to the first occurrence of \<open>T\<close> after it.
  \<open>None\<close> is the failed search.
\<close>

definition re_search_group :: "string option \<Rightarrow> string \<Rightarrow> string \<Rightarrow> string option" where
  "re_search_group pre t s =
     (case pre of
        None \<Rightarrow> (case find_sub t s of None \<Rightarrow> None | Some k \<Rightarrow> Some (take k s))
      | Some p \<Rightarrow>
          (case find_sub p s of
             None \<Rightarrow> None
           | Some j \<Rightarrow>
               (let rest = drop (j + length p) s
                in case find_sub t rest of None \<Rightarrow> None | Some k \<Rightarrow> Some (take k rest))))"

section \<open>External services of \<open>generate\<close>\<close>

text \<open>
  The tokenizer (\<open>enc.encode\<close>, \<open>enc.decode\<close>, \<open>enc.encoder['<|endoftext|>']\<close>) is a
  parameter. Text is a \<open>string\<close>.
\<close>

record encoder =
  encode :: "string \<Rightarrow> int list"
  decode :: "int list \<Rightarrow> string"
  endoftext :: int

text \<open>
  \<open>sess.run(output, feed_dict={context: context_tokens})\<close> on the graph built by
  \<open>sample.sample_sequence(..., length=n, ...)[:, 1:]\<close>: from the state of the session, the
  context and the requested length it gives the rows of \<open>out\<close> and the next state. The
  sampling parameters \<open>temperature\<close>, \<open>top_k\<close>, \<open>top_p\<close> and \<open>seed\<close> are constant
  during a call and belong to the service.
\<close>

type_synonym 's model = "'s \<Rightarrow> int list list \<Rightarrow> int \<Rightarrow> int list list \<times> 's"

text \<open>
  What a call does to the outside: the session, the sampling calls made so far (the
  context and the length of each) and the output.
\<close>

datatype out_event = Opened string | Written string | Printed string | Closed

record 's world =
  session :: 's
  calls :: "(int list list \<times> int) list"
  outputs :: "out_event list"

section \<open>\<open>generate\<close>\<close>

text \<open>
  The arguments of \<open>generate\<close>. \<open>split_context\<close> is a Python float, and the source
  uses it only in two index computations on the length \<open>n\<close> of a row of \<open>out\<close>:
  \<open>int(n * split_context)\<close>, where the new text starts, and
  \<open>int(n * (1 - split_context))\<close>, where the next context starts. Floating-point
  arithmetic is not modelled: the two computations are the arguments
  \<open>text_split_index\<close> and \<open>context_split_index\<close>, functions of \<open>n\<close>, and every theorem
  holds whatever they are.
\<close>

record gen_args =
  return_as_list :: bool
  truncate_arg :: "string option"
  destination_path :: "string option"
  sample_delim :: string
  prefix :: "string option"
  nsamples :: int
  batch_size :: "int option"
  length_arg :: "int option"
  include_prefix :: bool
  text_split_index :: "nat \<Rightarrow> int"
  context_split_index :: "nat \<Rightarrow> int"
  batch_prefix :: "string list option"

text \<open>
  The state of one batch. \<open>gen_text = [[]] * batch_size\<close> builds a list whose entries all
  refer to one list object, and \<open>gen_text[i] += [text]\<close> extends the object in place:
  \<open>gen_text\<close> holds references and \<open>heap\<close> the list objects.
\<close>

record gen_state =
  context_tokens :: "int list list"
  gen_text :: "nat list"
  heap :: "nat \<Rightarrow> int list list"
  truncated :: "bool list"
  total_tokens :: int

definition init_gen_state :: "int list list \<Rightarrow> int \<Rightarrow> gen_state" where
  "init_gen_state ctx bs =
     \<lparr>context_tokens = ctx, gen_text = replicate (nat bs) 0, heap = (\<lambda>_. []),
      truncated = replicate (nat bs) False, total_tokens = 0\<rparr>"

text \<open>
  The body of \<open>for i in range(batch_size)\<close>, lines 510 to 547. \<open>truncated\<close> and
  \<open>gen_text\<close> have \<open>batch_size\<close> entries; a row missing from \<open>out\<close> or from
  \<open>context_tokens\<close> raises \<open>IndexError\<close>.
\<close>

definition slot_step :: "encoder \<Rightarrow> gen_args \<Rightarrow> int list list \<Rightarrow> nat \<Rightarrow> gen_state
    \<Rightarrow> py_exn + gen_state" where
  "slot_step enc a out i st =
     (let prefixed = (truthy_str (prefix a) \<or> truthy_list (batch_prefix a));
          slide = (truthy_str (truncate_arg a)
                   \<or> list_all (\<lambda>r. heap st r \<noteq> []) (gen_text st))
      in
      if truncated st ! i then Inr st
      else if length out \<le> i \<or> ((prefixed \<or> slide) \<and> length (context_tokens st) \<le> i)
      then Inl IndexError
      else
        let text0 = out ! i;
            text1 = (if prefixed then take 1 (context_tokens st ! i) @ text0 else text0);
            ctx' = (if slide
                    then (context_tokens st)
                      [i := slice_from (out ! i) (context_split_index a (length (out ! i)))]
                    else context_tokens st);
            text2 = (if slide \<and> heap st (gen_text st ! i) \<noteq> []
                     then slice_from (out ! i) (text_split_index a (length (out ! i)))
                     else text1);
            trunc_text =
              (if truthy_str (truncate_arg a)
               then re_search_group
                      (if truthy_str (prefix a) \<and> \<not> include_prefix a then prefix a else None)
                      (the (truncate_arg a)) (decode enc text2)
               else None);
            text3 = (case trunc_text of None \<Rightarrow> text2 | Some g \<Rightarrow> encode enc g);
            r = gen_text st ! i;
            heap' = (heap st)(r := heap st r @ [text3]);
            fin = (trunc_text \<noteq> None
                   \<or> (case length_arg a of None \<Rightarrow> False
                       | Some l \<Rightarrow> total_tokens st \<ge> l - 1))
        in Inr (st\<lparr>context_tokens := ctx', heap := heap',
                   truncated := (if fin then (truncated st)[i := True] else truncated st)\<rparr>))"

fun slots_loop :: "encoder \<Rightarrow> gen_args \<Rightarrow> int list list \<Rightarrow> nat list \<Rightarrow> gen_state
    \<Rightarrow> py_exn + gen_state" where
  "slots_loop enc a out [] st = Inr st"
| "slots_loop enc a out (i # is) st =
     (case slot_step enc a out i st of
        Inl e \<Rightarrow> Inl e
      | Inr st' \<Rightarrow> slots_loop enc a out is st')"

text \<open>
  \<open>while False in truncated\<close>, lines 493 to 547. The loop need not terminate (no length
  bound and a truncation term that never shows up), so it runs on fuel: \<open>None\<close> is a
  run that has not returned within the fuel.
\<close>

fun sample_while :: "nat \<Rightarrow> encoder \<Rightarrow> 's model \<Rightarrow> gen_args \<Rightarrow> int \<Rightarrow> gen_state \<Rightarrow> 's world
    \<Rightarrow> ((py_exn + gen_state) \<times> 's world) option" where
  "sample_while 0 enc run a bs st w = None"
| "sample_while (Suc n) enc run a bs st w =
     (if False \<in> set (truncated st) then
        (case context_tokens st of
           [] \<Rightarrow> Some (Inl IndexError, w)
         | c0 # _ \<Rightarrow>
             (let num_tokens = 1023 - int (length c0);
                  len = min (if truthy_int (length_arg a) then the (length_arg a) else 1023)
                            num_tokens;
                  (out, s') = run (session w) (context_tokens st) len;
                  w' = w\<lparr>session := s', calls := calls w @ [(context_tokens st, len)]\<rparr>;
                  st1 = st\<lparr>total_tokens := total_tokens st + num_tokens\<rparr>
              in case slots_loop enc a out [0..<nat bs] st1 of
                   Inl e \<Rightarrow> Some (Inl e, w')
                 | Inr st2 \<Rightarrow> sample_while n enc run a bs st2 w'))
      else Some (Inr st, w))"

text \<open>Lines 549 to 556: decode, strip, join and emit the text of every slot.\<close>

definition slot_texts :: "encoder \<Rightarrow> gen_state \<Rightarrow> string list" where
  "slot_texts enc st =
     map (\<lambda>r. concat (map (\<lambda>g. lstrip_nl (decode enc g)) (heap st r))) (gen_text st)"

definition emit :: "gen_args \<Rightarrow> string \<Rightarrow> string \<Rightarrow> out_event list" where
  "emit a delim gen =
     (if truthy_str (destination_path a) then [Written (gen @ [CHR 0x0A] @ delim)] else [])
     @ (if \<not> return_as_list a \<and> \<not> truthy_str (destination_path a)
        then [Printed (gen @ [CHR 0x0A] @ delim)] else [])"

text \<open>
  \<open>while generated < nsamples\<close>, lines 487 to 558. \<open>context_tokens\<close> is not reset
  between batches. With a negative \<open>batch_size\<close> the counter never reaches
  \<open>nsamples\<close>, so this loop runs on fuel as well.
\<close>

fun batches_while :: "nat \<Rightarrow> encoder \<Rightarrow> 's model \<Rightarrow> gen_args \<Rightarrow> string \<Rightarrow> int
    \<Rightarrow> int \<Rightarrow> string list \<Rightarrow> int list list \<Rightarrow> 's world
    \<Rightarrow> ((py_exn + string list) \<times> 's world) option" where
  "batches_while 0 enc run a delim bs generated gen_texts ctx w = None"
| "batches_while (Suc n) enc run a delim bs generated gen_texts ctx w =
     (if generated < nsamples a then
        (case sample_while n enc run a bs (init_gen_state ctx bs) w of
           None \<Rightarrow> None
         | Some (Inl e, w') \<Rightarrow> Some (Inl e, w')
         | Some (Inr st, w') \<Rightarrow>
             (let gens = slot_texts enc st;
                  w'' = w'\<lparr>outputs := outputs w' @ concat (map (emit a delim) gens)\<rparr>
              in batches_while n enc run a delim bs (generated + bs) (gen_texts @ gens)
                   (context_tokens st) w''))
      else Some (Inr gen_texts, w))"

text \<open>Lines 463 to 477: the initial context of every slot.\<close>

definition pad_left :: "nat \<Rightarrow> int list \<Rightarrow> int list" where
  "pad_left ml p = replicate (ml - length p) 0 @ p"

definition initial_context :: "encoder \<Rightarrow> gen_args \<Rightarrow> int \<Rightarrow> int list list" where
  "initial_context enc a bs =
     (if truthy_str (prefix a) then replicate (nat bs) (encode enc (the (prefix a)))
      else if truthy_list (batch_prefix a) then
        (let toks = map (encode enc) (the (batch_prefix a));
             ml = Max (set (map length toks))
         in map (pad_left ml) toks)
      else replicate (nat bs) [endoftext enc])"

text \<open>
  Lines 444 to 447: the empty prefix and the empty list of prefixes become \<open>None\<close>.
\<close>

definition normalize_prefixes :: "gen_args \<Rightarrow> gen_args" where
  "normalize_prefixes a =
     a\<lparr>prefix := (if prefix a = Some [] then None else prefix a),
       batch_prefix := (if batch_prefix a = Some [] then None else batch_prefix a)\<rparr>"

text \<open>
  The exception lines 436 to 451 raise, if any, with the tests in the order of the
  source. \<open>nsamples % 0\<close> raises \<open>ZeroDivisionError\<close>.
\<close>

definition effective_batch_size :: "gen_args \<Rightarrow> int" where
  "effective_batch_size a = (case batch_size a of None \<Rightarrow> 1 | Some b \<Rightarrow> b)"

definition check_args :: "gen_args \<Rightarrow> py_exn option" where
  "check_args a =
     (let bs = effective_batch_size a
      in if bs = 0 then Some ZeroDivisionError
         else if nsamples a mod bs \<noteq> 0 then Some AssertionError
         else if truthy_str (prefix a) \<and> truthy_list (batch_prefix a) then Some AssertionError
         else if truthy_list (batch_prefix a)
                 \<and> int (length (the (batch_prefix a))) \<noteq> bs then Some AssertionError
         else if \<not> truthy_int (length_arg a) \<and> truncate_arg a = None
              then Some AssertionError
         else None)"

text \<open>
  Lines 436 to 451 step by step. The result is the local variables \<open>batch_size\<close>,
  \<open>sample_delim\<close> and the arguments with \<open>prefix\<close> and \<open>batch_prefix\<close> as the rest of
  the function sees them; an exception comes with the arguments as they are at the
  statement that raises. The assertions of lines 438 to 443 come before the
  normalisation of lines 444 to 447, the assertion of line 450 after it.
\<close>

definition preamble :: "gen_args \<Rightarrow> (py_exn \<times> gen_args) + (int \<times> string \<times> gen_args)" where
  "preamble a =
     (let bs = effective_batch_size a
      in if bs = 0 then Inl (ZeroDivisionError, a)
         else if nsamples a mod bs \<noteq> 0 then Inl (AssertionError, a)
         else
           (let delim = (if nsamples a = 1 then [] else sample_delim a)
            in if truthy_str (prefix a) \<and> truthy_list (batch_prefix a)
               then Inl (AssertionError, a)
               else if truthy_list (batch_prefix a)
                       \<and> int (length (the (batch_prefix a))) \<noteq> bs
               then Inl (AssertionError, a)
               else
                 (let a' = normalize_prefixes a
                  in if \<not> truthy_int (length_arg a') \<and> truncate_arg a' = None
                     then Inl (AssertionError, a')
                     else Inr (bs, delim, a'))))"

definition generate :: "nat \<Rightarrow> encoder \<Rightarrow> 's model \<Rightarrow> gen_args \<Rightarrow> 's world
    \<Rightarrow> ((py_exn + string list option) \<times> 's world) option" where
  "generate fuel enc run a w =
     (case preamble a of
        Inl (e, _) \<Rightarrow> Some (Inl e, w)
      | Inr (bs, delim, a') \<Rightarrow>
          (let ctx = initial_context enc a' bs;
               w0 = (if truthy_str (destination_path a')
                     then w\<lparr>outputs := outputs w @ [Opened (the (destination_path a'))]\<rparr>
                     else w)
           in case batches_while fuel enc run a' delim bs 0 [] ctx w0 of
                None \<Rightarrow> None
              | Some (Inl e, w1) \<Rightarrow> Some (Inl e, w1)
              | Some (Inr gen_texts, w1) \<Rightarrow>
                  Some (Inr (if return_as_list a' then Some gen_texts else None),
                        (if truthy_str (destination_path a')
                         then w1\<lparr>outputs := outputs w1 @ [Closed]\<rparr> else w1))))"

text \<open>The texts written to the destination file and the texts printed.\<close>

fun written_texts :: "out_event list \<Rightarrow> string list" where
  "written_texts [] = []"
| "written_texts (Written s # es) = s # written_texts es"
| "written_texts (e # es) = written_texts es"

fun printed_texts :: "out_event list \<Rightarrow> string list" where
  "printed_texts [] = []"
| "printed_texts (Printed s # es) = s # printed_texts es"
| "printed_texts (e # es) = printed_texts es"


section \<open>Python \<open>str\<close> and \<open>int\<close> on the counter file\<close>

text \<open>\<open>str(n)\<close> for an integer: an optional minus sign and the decimal digits.\<close>

definition digit_char :: "nat \<Rightarrow> char" where
  "digit_char d = ''0123456789'' ! d"

fun digits_of :: "nat \<Rightarrow> string" where
  "digits_of n = (if n < 10 then [digit_char n] else digits_of (n div 10) @ [digit_char (n mod 10)])"

definition py_str :: "int \<Rightarrow> string" where
  "py_str n = (if n < 0 then CHR ''-'' # digits_of (nat (- n)) else digits_of (nat n))"

text \<open>
  \<open>int(s)\<close> for a string: surrounding whitespace is stripped, then an optional sign and
  at least one decimal digit are read; anything else raises \<open>ValueError\<close> (\<open>None\<close>
  here). Underscores between digits and non-ASCII digits, which Python also accepts,
  are outside this model: \<open>save\<close> never writes them.
\<close>

definition is_space :: "char \<Rightarrow> bool" where
  "is_space c = (c \<in> set [CHR '' '', CHR 0x09, CHR 0x0A, CHR 0x0B, CHR 0x0C, CHR 0x0D])"

definition py_strip :: "string \<Rightarrow> string" where
  "py_strip s = dropWhile is_space (rev (dropWhile is_space (rev s)))"

definition digit_val :: "char \<Rightarrow> nat option" where
  "digit_val c =
     map_of [(CHR ''0'', 0), (CHR ''1'', 1), (CHR ''2'', 2), (CHR ''3'', 3), (CHR ''4'', 4),
             (CHR ''5'', 5), (CHR ''6'', 6), (CHR ''7'', 7), (CHR ''8'', 8), (CHR ''9'', 9)] c"

fun parse_digits :: "nat \<Rightarrow> string \<Rightarrow> nat option" where
  "parse_digits acc [] = Some acc"
| "parse_digits acc (c # cs) =
     (case digit_val c of None \<Rightarrow> None | Some d \<Rightarrow> parse_digits (acc * 10 + d) cs)"

definition parse_nat :: "string \<Rightarrow> nat option" where
  "parse_nat s = (if s = [] then None else parse_digits 0 s)"

definition py_int_of_str :: "string \<Rightarrow> int option" where
  "py_int_of_str s =
     (case py_strip s of
        [] \<Rightarrow> None
      | c # cs \<Rightarrow>
          if c = CHR ''-'' then map_option (\<lambda>n. - int n) (parse_nat cs)
          else if c = CHR ''+'' then map_option int (parse_nat cs)
          else map_option int (parse_nat (c # cs)))"

text \<open>\<open>os.path.join(a, b)\<close> on a POSIX system.\<close>

definition path_join :: "string \<Rightarrow> string \<Rightarrow> string" where
  "path_join a b =
     (if b \<noteq> [] \<and> hd b = CHR ''/'' then b
      else if a = [] \<or> last a = CHR ''/'' then a @ b
      else a @ ''/'' @ b)"

section \<open>\<open>finetune\<close>\<close>

text \<open>
  The arguments of \<open>finetune\<close> that the training loop reads. \<open>train_batch_size\<close> is
  the argument \<open>batch_size\<close> of \<open>finetune\<close>.
\<close>

record train_cfg =
  steps :: int
  model_name :: string
  train_batch_size :: int
  accumulate_gradients :: int
  restore_from :: string
  run_name :: string
  checkpoint_dir :: string
  sample_every :: int
  save_every :: int
  print_every :: int
  overwrite :: bool

text \<open>
  What the loop does to the outside, in order. \<open>Raise\<close> marks the point where an
  external call raised.
\<close>

datatype train_event =
    Save int
  | GenerateSamples int
  | RemoveModelFiles
  | OptReset
  | SampleBatch int
  | OptCompute
  | OptApply
  | ApplyStep
  | AddSummary int
  | PrintLoss int real real
  | PrintInterrupted
  | Raise py_exn

text \<open>
  The state of the loop: the step counter, the running average \<open>avg_loss\<close>, the files
  (of which only the counter file is read back), the events so far and the number of
  external calls made. Python floats are taken as reals.
\<close>

record train_state =
  counter :: int
  avg_loss :: "real \<times> real"
  files :: "string \<rightharpoonup> string"
  trace :: "train_event list"
  ticks :: nat

text \<open>
  The external services (session, saver, dataset sampler, file system) are an oracle:
  the \<open>k\<close>-th external call either raises or returns a value (the loss, for the calls
  that run the optimizer). An interrupt from the keyboard is the exception
  \<open>KeyboardInterrupt\<close> raised by the call during which it arrives.
\<close>

type_synonym env = "nat \<Rightarrow> py_exn + real"

definition ext_call :: "env \<Rightarrow> train_event \<Rightarrow> train_state
    \<Rightarrow> (py_exn \<times> train_state) + (real \<times> train_state)" where
  "ext_call env ev st =
     (case env (ticks st) of
        Inl e \<Rightarrow> Inl (e, st\<lparr>trace := trace st @ [Raise e], ticks := Suc (ticks st)\<rparr>)
      | Inr v \<Rightarrow> Inr (v, st\<lparr>trace := trace st @ [ev], ticks := Suc (ticks st)\<rparr>))"

definition counter_path :: "train_cfg \<Rightarrow> string" where
  "counter_path cfg = path_join (path_join (checkpoint_dir cfg) (run_name cfg)) ''counter''"

text \<open>
  Lines 278 to 289, \<open>save()\<close>: the checkpoint \<open>model-(counter-1)\<close> is saved and the
  counter file is rewritten.
\<close>

definition save :: "env \<Rightarrow> train_cfg \<Rightarrow> train_state \<Rightarrow> (py_exn \<times> train_state) + train_state" where
  "save env cfg st =
     (case ext_call env (Save (counter st - 1)) st of
        Inl x \<Rightarrow> Inl x
      | Inr (_, st') \<Rightarrow>
          Inr (st'\<lparr>files := (files st')(counter_path cfg \<mapsto> py_str (counter st - 1) @ [CHR 0x0A])\<rparr>))"

text \<open>Lines 269 to 276: the counter a run starts with.\<close>

definition initial_counter :: "train_cfg \<Rightarrow> (string \<rightharpoonup> string) \<Rightarrow> py_exn + int" where
  "initial_counter cfg fs =
     (case fs (counter_path cfg) of
        None \<Rightarrow> Inr 1
      | Some content \<Rightarrow>
          if restore_from cfg = ''latest''
          then (case py_int_of_str content of None \<Rightarrow> Inl ValueError | Some n \<Rightarrow> Inr (n + 1))
          else Inr 1)"

text \<open>
  Lines 184 to 187: for a model other than 117M and 124M the loop runs with
  \<open>accumulate_gradients = 1\<close>.
\<close>

definition effective_accumulate :: "train_cfg \<Rightarrow> int" where
  "effective_accumulate cfg =
     (if model_name cfg \<in> set [''117M'', ''124M''] then accumulate_gradients cfg else 1)"

text \<open>
  Lines 337 to 346. \<open>sample_batch()\<close> draws \<open>batch_size\<close> windows from the dataset
  sampler before the session runs.
\<close>

fun compute_loop :: "env \<Rightarrow> train_cfg \<Rightarrow> nat \<Rightarrow> train_state \<Rightarrow> (py_exn \<times> train_state) + train_state" where
  "compute_loop env cfg 0 st = Inr st"
| "compute_loop env cfg (Suc k) st =
     (case ext_call env (SampleBatch (train_batch_size cfg)) st of
        Inl x \<Rightarrow> Inl x
      | Inr (_, st1) \<Rightarrow>
          (case ext_call env OptCompute st1 of
             Inl x \<Rightarrow> Inl x
           | Inr (_, st2) \<Rightarrow> compute_loop env cfg k st2))"

definition train_step :: "env \<Rightarrow> train_cfg \<Rightarrow> train_state
    \<Rightarrow> (py_exn \<times> train_state) + (real \<times> train_state)" where
  "train_step env cfg st =
     (if effective_accumulate cfg > 1 then
        (case ext_call env OptReset st of
           Inl x \<Rightarrow> Inl x
         | Inr (_, st1) \<Rightarrow>
             (case compute_loop env cfg (nat (effective_accumulate cfg)) st1 of
                Inl x \<Rightarrow> Inl x
              | Inr st2 \<Rightarrow> ext_call env OptApply st2))
      else
        (case ext_call env (SampleBatch (train_batch_size cfg)) st of
           Inl x \<Rightarrow> Inl x
         | Inr (_, st1) \<Rightarrow> ext_call env ApplyStep st1))"

text \<open>
  One pass through the body of \<open>while True\<close>, lines 329 to 362. A modulus of zero
  raises \<open>ZeroDivisionError\<close>.
\<close>

datatype step_result = Continue train_state | Return train_state | Raised py_exn train_state

definition raise_here :: "py_exn \<Rightarrow> train_state \<Rightarrow> step_result" where
  "raise_here e st = Raised e (st\<lparr>trace := trace st @ [Raise e]\<rparr>)"

definition report_loss :: "train_cfg \<Rightarrow> real \<Rightarrow> train_state \<Rightarrow> train_state" where
  "report_loss cfg v_loss st =
     (if counter st mod print_every cfg = 0 then
        (let avg = (fst (avg_loss st) * (99 / 100) + v_loss, snd (avg_loss st) * (99 / 100) + 1)
         in st\<lparr>avg_loss := avg,
               trace := trace st @ [PrintLoss (counter st) v_loss (fst avg / snd avg)]\<rparr>)
      else st)"

definition loop_body :: "env \<Rightarrow> train_cfg \<Rightarrow> int \<Rightarrow> train_state \<Rightarrow> step_result" where
  "loop_body env cfg counter_base st =
     (if steps cfg > 0 \<and> counter st = counter_base + steps cfg then
        (case save env cfg st of Inl (e, st') \<Rightarrow> Raised e st' | Inr st' \<Rightarrow> Return st')
      else if save_every cfg = 0 then raise_here ZeroDivisionError st
      else
        (case (if (counter st - 1) mod save_every cfg = 0 \<and> counter st > 1
               then save env cfg st else Inr st) of
           Inl (e, st1) \<Rightarrow> Raised e st1
         | Inr st1 \<Rightarrow>
             if sample_every cfg = 0 then raise_here ZeroDivisionError st1
             else
               (case (if (counter st1 - 1) mod sample_every cfg = 0 \<and> counter st1 > 1
                      then map_sum id snd (ext_call env (GenerateSamples (counter st1)) st1)
                      else Inr st1) of
                  Inl (e, st2) \<Rightarrow> Raised e st2
                | Inr st2 \<Rightarrow>
                    (case train_step env cfg st2 of
                       Inl (e, st3) \<Rightarrow> Raised e st3
                     | Inr (v_loss, st3) \<Rightarrow>
                         (let st4 = st3\<lparr>trace := trace st3 @ [AddSummary (counter st3)]\<rparr>
                          in if print_every cfg = 0 then raise_here ZeroDivisionError st4
                             else
                               (let st5 = report_loss cfg v_loss st4
                                in Continue (st5\<lparr>counter := counter st5 + 1\<rparr>)))))))"

text \<open>
  Lines 327 to 365: the loop inside \<open>try\<close>, with the handler of
  \<open>KeyboardInterrupt\<close>. Without a step budget the loop runs until an exception, so it
  runs on fuel: \<open>None\<close> is a run that has not ended within the fuel.
\<close>

datatype outcome = Completed | Interrupted | Propagated py_exn

fun train_loop :: "nat \<Rightarrow> env \<Rightarrow> train_cfg \<Rightarrow> int \<Rightarrow> train_state \<Rightarrow> (outcome \<times> train_state) option" where
  "train_loop 0 env cfg counter_base st = None"
| "train_loop (Suc n) env cfg counter_base st =
     (case loop_body env cfg counter_base st of
        Return st' \<Rightarrow> Some (Completed, st')
      | Continue st' \<Rightarrow> train_loop n env cfg counter_base st'
      | Raised e st' \<Rightarrow>
          if e = KeyboardInterrupt then
            (case save env cfg (st'\<lparr>trace := trace st' @ [PrintInterrupted]\<rparr>) of
               Inl (e', st'') \<Rightarrow> Some (Propagated e', st'')
             | Inr st'' \<Rightarrow> Some (Interrupted, st''))
          else Some (Propagated e, st'))"

text \<open>
  Lines 269 to 365 of \<open>finetune\<close>: the initial counter, the optional overwrite and the
  loop. The exceptions raised before the \<open>try\<close> propagate.
\<close>

definition finetune :: "nat \<Rightarrow> env \<Rightarrow> train_cfg \<Rightarrow> (string \<rightharpoonup> string)
    \<Rightarrow> (outcome \<times> train_state) option" where
  "finetune fuel env cfg fs =
     (let st0 = \<lparr>counter = 1, avg_loss = (0, 0), files = fs, trace = [], ticks = 0\<rparr>
      in case initial_counter cfg fs of
           Inl e \<Rightarrow> Some (Propagated e, st0\<lparr>trace := [Raise e]\<rparr>)
         | Inr c \<Rightarrow>
             (let st1 = st0\<lparr>counter := c\<rparr>
              in if overwrite cfg \<and> restore_from cfg = ''latest'' then
                   (case ext_call env RemoveModelFiles st1 of
                      Inl (e, st2) \<Rightarrow> Some (Propagated e, st2)
                    | Inr (_, st2) \<Rightarrow>
                        (case save env cfg st2 of
                           Inl (e, st3) \<Rightarrow> Some (Propagated e, st3)
                         | Inr st3 \<Rightarrow> train_loop fuel env cfg c st3))
                 else train_loop fuel env cfg c st1))"

text \<open>The events of the optimizer, among the events of an iteration.\<close>

definition is_opt_event :: "train_event \<Rightarrow> bool" where
  "is_opt_event ev =
     (case ev of OptReset \<Rightarrow> True | SampleBatch _ \<Rightarrow> True | OptCompute \<Rightarrow> True
      | OptApply \<Rightarrow> True | ApplyStep \<Rightarrow> True | _ \<Rightarrow> False)"

text \<open>The events that mark a raised exception.\<close>

definition is_raise :: "train_event \<Rightarrow> bool" where
  "is_raise ev = (case ev of Raise _ \<Rightarrow> True | _ \<Rightarrow> False)"

text \<open>
  The default arguments of \<open>finetune\<close>, an oracle that never raises and one that
  raises at one call.
\<close>

definition default_cfg :: train_cfg where
  "default_cfg =
     \<lparr>steps = - 1, model_name = ''124M'', train_batch_size = 1, accumulate_gradients = 5,
      restore_from = ''latest'', run_name = ''run1'', checkpoint_dir = ''checkpoint'',
      sample_every = 100, save_every = 1000, print_every = 1, overwrite = False\<rparr>"

definition quiet_env :: "real \<Rightarrow> env" where
  "quiet_env v k = Inr v"

definition raising_env :: "nat \<Rightarrow> py_exn \<Rightarrow> real \<Rightarrow> env" where
  "raising_env j e v k = (if k = j then Inl e else Inr v)"

definition start_state :: train_state where
  "start_state = \<lparr>counter = 1, avg_loss = (0, 0), files = Map.empty, trace = [], ticks = 0\<rparr>"

section \<open>Example inputs\<close>

text \<open>A tokenizer with one token per character, and a session that replays a script.\<close>

definition char_encoder :: encoder where
  "char_encoder =
     \<lparr>encode = map (\<lambda>c. int (of_char c)), decode = map (\<lambda>t. char_of (nat t)),
      endoftext = 0\<rparr>"

definition script_run :: "int list list list \<Rightarrow> nat model" where
  "script_run script s ctx n = ((if s < length script then script ! s else []), Suc s)"

definition empty_world :: "nat world" where
  "empty_world = \<lparr>session = 0, calls = [], outputs = []\<rparr>"

text \<open>
  The default arguments of \<open>generate\<close>. With \<open>split_context = 0.5\<close> both products are
  exact in binary floating point (\<open>1 - 0.5\<close> is \<open>0.5\<close>, and halving an integer below
  \<open>2 ^ 53\<close> is exact), so both indices are \<open>n div 2\<close>.
\<close>

definition default_args :: gen_args where
  "default_args =
     \<lparr>return_as_list = False, truncate_arg = None, destination_path = None,
      sample_delim = replicate 20 (CHR ''='') @ [CHR 0x0A], prefix = None, nsamples = 1,
      batch_size = Some 1, length_arg = Some 1023, include_prefix = True,
      text_split_index = (\<lambda>n. int (n div 2)),
      context_split_index = (\<lambda>n. int (n div 2)), batch_prefix = None\<rparr>"

declare digits_of.simps [simp del]

lemmas train_eval =
  loop_body_def save_def ext_call_def train_step_def effective_accumulate_def
  report_loss_def default_cfg_def quiet_env_def raising_env_def start_state_def
  raise_here_def Let_def

section \<open>Configuration errors of \<open>generate\<close>\<close>

lemma preamble_raises: "check_args a = Some e \<Longrightarrow> \<exists>l. preamble a = Inl (e, l)"
  by (auto simp: check_args_def preamble_def normalize_prefixes_def Let_def split: if_splits)

lemma preamble_passes:
  "check_args a = None \<Longrightarrow>
     preamble a = Inr (effective_batch_size a, (if nsamples a = 1 then [] else sample_delim a),
                       normalize_prefixes a)"
  by (auto simp: check_args_def preamble_def normalize_prefixes_def Let_def split: if_splits)

lemma generate_unfold:
  "generate fuel enc run a w =
     (case check_args a of
        Some e \<Rightarrow> Some (Inl e, w)
      | None \<Rightarrow>
          (let bs = effective_batch_size a;
               delim = (if nsamples a = 1 then [] else sample_delim a);
               a' = normalize_prefixes a;
               ctx = initial_context enc a' bs;
               w0 = (if truthy_str (destination_path a)
                     then w\<lparr>outputs := outputs w @ [Opened (the (destination_path a))]\<rparr>
                     else w)
           in case batches_while fuel enc run a' delim bs 0 [] ctx w0 of
                None \<Rightarrow> None
              | Some (Inl e, w1) \<Rightarrow> Some (Inl e, w1)
              | Some (Inr gen_texts, w1) \<Rightarrow>
                  Some (Inr (if return_as_list a then Some gen_texts else None),
                        (if truthy_str (destination_path a)
                         then w1\<lparr>outputs := outputs w1 @ [Closed]\<rparr> else w1))))"
proof (cases "check_args a")
  case None
  have d: "destination_path (normalize_prefixes a) = destination_path a"
    and r: "return_as_list (normalize_prefixes a) = return_as_list a"
    by (simp_all add: normalize_prefixes_def)
  show ?thesis
    unfolding generate_def preamble_passes [OF None] None Let_def sum.case prod.case
      option.case d r ..
next
  case (Some e)
  from preamble_raises [OF Some] obtain l where "preamble a = Inl (e, l)" ..
  with Some show ?thesis by (simp add: generate_def)
qed

lemma slot_step_error: "slot_step enc a out i st = Inl e \<Longrightarrow> e = IndexError"
  by (auto simp: slot_step_def Let_def split: if_splits)

lemma slots_loop_error: "slots_loop enc a out js st = Inl e \<Longrightarrow> e = IndexError"
  by (induction js arbitrary: st) (auto split: sum.splits dest: slot_step_error)

lemma sample_while_error:
  "sample_while n enc run a bs st w = Some (Inl e, w') \<Longrightarrow> e = IndexError"
proof (induction n arbitrary: st w)
  case 0
  then show ?case by simp
next
  case (Suc n)
  then show ?case
    by (auto simp: Let_def split: if_splits list.splits prod.splits sum.splits
        dest: slots_loop_error)
qed

lemma batches_while_error:
  "batches_while n enc run a delim bs g ts ctx w = Some (Inl e, w') \<Longrightarrow> e = IndexError"
proof (induction n arbitrary: g ts ctx w)
  case 0
  then show ?case by simp
next
  case (Suc n)
  then show ?case
    by (auto simp: Let_def split: if_splits option.splits prod.splits sum.splits
        dest: sample_while_error)
qed

lemma generate_error_cases:
  "generate fuel enc run a w = Some (Inl e, w')
   \<Longrightarrow> (check_args a = Some e \<and> w' = w) \<or> (check_args a = None \<and> e = IndexError)"
  by (auto simp: generate_unfold Let_def split: option.splits prod.splits sum.splits
      dest: batches_while_error)

text \<open>
  C7 (as amended). \<open>generate\<close> raises \<open>AssertionError\<close> exactly when \<open>batch_size\<close> is
  not zero and one of four conditions holds: \<open>nsamples\<close> is not a multiple of
  \<open>batch_size\<close>; \<open>prefix\<close> and \<open>batch_prefix\<close> are both non-empty; \<open>batch_prefix\<close> is
  non-empty and its length is not \<open>batch_size\<close>; \<open>length\<close> is \<open>None\<close> or 0 and
  \<open>truncate\<close> is \<open>None\<close>. It does so for every model and before any sampling call or
  output: the world is returned unchanged.
\<close>

theorem generate_assertion_iff:
  "(generate fuel enc run a w = Some (Inl AssertionError, w')) =
   (w' = w \<and> effective_batch_size a \<noteq> 0
    \<and> (nsamples a mod effective_batch_size a \<noteq> 0
       \<or> (truthy_str (prefix a) \<and> truthy_list (batch_prefix a))
       \<or> (truthy_list (batch_prefix a)
          \<and> int (length (the (batch_prefix a))) \<noteq> effective_batch_size a)
       \<or> (\<not> truthy_int (length_arg a) \<and> truncate_arg a = None)))"
proof
  assume "generate fuel enc run a w = Some (Inl AssertionError, w')"
  from generate_error_cases [OF this]
  have "check_args a = Some AssertionError \<and> w' = w" by auto
  then show "w' = w \<and> effective_batch_size a \<noteq> 0
    \<and> (nsamples a mod effective_batch_size a \<noteq> 0
       \<or> (truthy_str (prefix a) \<and> truthy_list (batch_prefix a))
       \<or> (truthy_list (batch_prefix a)
          \<and> int (length (the (batch_prefix a))) \<noteq> effective_batch_size a)
       \<or> (\<not> truthy_int (length_arg a) \<and> truncate_arg a = None))"
    by (auto simp: check_args_def Let_def split: if_splits)
next
  assume "w' = w \<and> effective_batch_size a \<noteq> 0
    \<and> (nsamples a mod effective_batch_size a \<noteq> 0
       \<or> (truthy_str (prefix a) \<and> truthy_list (batch_prefix a))
       \<or> (truthy_list (batch_prefix a)
          \<and> int (length (the (batch_prefix a))) \<noteq> effective_batch_size a)
       \<or> (\<not> truthy_int (length_arg a) \<and> truncate_arg a = None))"
  then have "check_args a = Some AssertionError" and "w' = w"
    by (auto simp: check_args_def Let_def)
  then show "generate fuel enc run a w = Some (Inl AssertionError, w')"
    by (simp add: generate_unfold)
qed

theorem generate_assertion_iff_witness:
  "generate 0 char_encoder (script_run []) (default_args\<lparr>nsamples := 3, batch_size := Some 2\<rparr>)
     empty_world = Some (Inl AssertionError, empty_world)"
  using generate_assertion_iff [of 0 char_encoder "script_run []"
      "default_args\<lparr>nsamples := 3, batch_size := Some 2\<rparr>" empty_world empty_world]
  by (simp add: default_args_def effective_batch_size_def)

text \<open>
  C7 as stated fails in its last part: a \<open>batch_prefix\<close> of two entries with
  \<open>batch_size = 1\<close> makes the assertion of line 443 fire, although \<open>nsamples\<close> is a
  multiple of \<open>batch_size\<close>, no \<open>prefix\<close> is given and \<open>length\<close> is set.
\<close>

theorem generate_assertion_counterexample:
  "nsamples (default_args\<lparr>batch_prefix := Some [''a'', ''b'']\<rparr>)
     mod effective_batch_size (default_args\<lparr>batch_prefix := Some [''a'', ''b'']\<rparr>) = 0
   \<and> prefix (default_args\<lparr>batch_prefix := Some [''a'', ''b'']\<rparr>) = None
   \<and> length_arg (default_args\<lparr>batch_prefix := Some [''a'', ''b'']\<rparr>) = Some 1023
   \<and> generate 0 char_encoder (script_run [])
         (default_args\<lparr>batch_prefix := Some [''a'', ''b'']\<rparr>) empty_world
       = Some (Inl AssertionError, empty_world)"
  by (simp add: generate_unfold check_args_def default_args_def effective_batch_size_def
      truthy_str_def truthy_list_def truthy_int_def)

section \<open>The loops of \<open>generate\<close>\<close>

lemma slot_step_gen_text:
  "slot_step enc a out i st = Inr st' \<Longrightarrow> gen_text st' = gen_text st"
  by (auto simp: slot_step_def Let_def split: if_splits)

lemma slots_loop_gen_text:
  "slots_loop enc a out js st = Inr st' \<Longrightarrow> gen_text st' = gen_text st"
  by (induction js arbitrary: st) (auto split: sum.splits dest: slot_step_gen_text)

lemma sample_while_gen_text:
  "sample_while n enc run a bs st w = Some (Inr st', w')
   \<Longrightarrow> gen_text st' = gen_text st \<and> outputs w' = outputs w"
proof (induction n arbitrary: st w)
  case 0
  then show ?case by simp
next
  case (Suc n)
  show ?case
  proof (cases "False \<in> set (truncated st)")
    case False
    with Suc.prems show ?thesis by simp
  next
    case True
    with Suc.prems obtain c0 cs where ctx: "context_tokens st = c0 # cs"
      by (cases "context_tokens st") auto
    obtain out s' where r: "run (session w) (context_tokens st)
        (min (if truthy_int (length_arg a) then the (length_arg a) else 1023)
             (1023 - int (length c0))) = (out, s')"
      by (cases "run (session w) (context_tokens st)
        (min (if truthy_int (length_arg a) then the (length_arg a) else 1023)
             (1023 - int (length c0)))") auto
    from Suc.prems True ctx r obtain st2 where
      s: "slots_loop enc a out [0..<nat bs] (st\<lparr>total_tokens := total_tokens st + (1023 - int (length c0))\<rparr>) = Inr st2"
      and rec: "sample_while n enc run a bs st2
          (w\<lparr>session := s', calls := calls w @ [(context_tokens st,
             min (if truthy_int (length_arg a) then the (length_arg a) else 1023)
             (1023 - int (length c0)))]\<rparr>) = Some (Inr st', w')"
      by (auto simp: Let_def split: sum.splits)
    from slots_loop_gen_text [OF s] Suc.IH [OF rec] show ?thesis by simp
  qed
qed

lemma batches_while_texts:
  "batches_while n enc run a delim bs g ts ctx w = Some (Inr ts', w')
   \<Longrightarrow> \<exists>new. ts' = ts @ new \<and> outputs w' = outputs w @ concat (map (emit a delim) new)"
proof (induction n arbitrary: g ts ctx w)
  case 0
  then show ?case by simp
next
  case (Suc n)
  show ?case
  proof (cases "g < nsamples a")
    case False
    with Suc.prems show ?thesis by simp
  next
    case True
    with Suc.prems obtain st w1 where
      sw: "sample_while n enc run a bs (init_gen_state ctx bs) w = Some (Inr st, w1)"
      and rec: "batches_while n enc run a delim bs (g + bs) (ts @ slot_texts enc st)
         (context_tokens st)
         (w1\<lparr>outputs := outputs w1 @ concat (map (emit a delim) (slot_texts enc st))\<rparr>)
         = Some (Inr ts', w')"
      by (auto simp: Let_def split: option.splits prod.splits sum.splits)
    from Suc.IH [OF rec] obtain new where
      "ts' = (ts @ slot_texts enc st) @ new"
      "outputs w' = (outputs w1 @ concat (map (emit a delim) (slot_texts enc st)))
          @ concat (map (emit a delim) new)"
      by auto
    with sample_while_gen_text [OF sw] show ?thesis
      by (intro exI [of _ "slot_texts enc st @ new"]) simp
  qed
qed

lemma batches_while_count:
  "batches_while n enc run a delim bs g ts ctx w = Some (Inr ts', w')
   \<Longrightarrow> 0 < bs \<Longrightarrow> g \<le> nsamples a \<Longrightarrow> (nsamples a - g) mod bs = 0
   \<Longrightarrow> int (length ts') = int (length ts) + (nsamples a - g)"
proof (induction n arbitrary: g ts ctx w)
  case 0
  then show ?case by simp
next
  case (Suc n)
  show ?case
  proof (cases "g < nsamples a")
    case False
    with Suc.prems show ?thesis by simp
  next
    case True
    with Suc.prems obtain st w1 where
      sw: "sample_while n enc run a bs (init_gen_state ctx bs) w = Some (Inr st, w1)"
      and rec: "batches_while n enc run a delim bs (g + bs) (ts @ slot_texts enc st)
         (context_tokens st)
         (w1\<lparr>outputs := outputs w1 @ concat (map (emit a delim) (slot_texts enc st))\<rparr>)
         = Some (Inr ts', w')"
      by (auto simp: Let_def split: option.splits prod.splits sum.splits)
    from sample_while_gen_text [OF sw] \<open>0 < bs\<close>
    have len: "int (length (slot_texts enc st)) = bs"
      by (simp add: slot_texts_def init_gen_state_def)
    from \<open>(nsamples a - g) mod bs = 0\<close> obtain k where k: "nsamples a - g = bs * k"
      by (auto simp: mod_eq_0_iff_dvd)
    with True \<open>0 < bs\<close> have "0 < k"
      by (metis diff_gt_0_iff_gt zero_less_mult_pos)
    then have "bs * 1 \<le> bs * k" using \<open>0 < bs\<close> by (intro mult_left_mono) auto
    with k have le: "g + bs \<le> nsamples a" by simp
    have "nsamples a - (g + bs) = bs * (k - 1)" using k by (simp add: algebra_simps)
    then have md: "(nsamples a - (g + bs)) mod bs = 0" by simp
    from Suc.IH [OF rec \<open>0 < bs\<close> le md] len show ?thesis by simp
  qed
qed

lemma batches_while_negative:
  "bs < 0 \<Longrightarrow> g < nsamples a
   \<Longrightarrow> batches_while n enc run a delim bs g ts ctx w \<noteq> Some (Inr ts', w')"
proof (induction n arbitrary: g ts ctx w)
  case 0
  then show ?case by simp
next
  case (Suc n)
  from Suc.prems have "g + bs < nsamples a" by simp
  from Suc.IH [OF \<open>bs < 0\<close> this] Suc.prems show ?case
    by (auto simp: Let_def split: option.splits prod.splits sum.splits)
qed

section \<open>Termination of \<open>generate\<close> with a length bound\<close>

lemma slot_step_fixed_length:
  assumes cfg: "\<not> truthy_str (truncate_arg a)" "\<not> truthy_str (prefix a)"
      "\<not> truthy_list (batch_prefix a)" "length_arg a = Some l" "l - 1 \<le> total_tokens st"
    and i: "i < length out" "i < length (context_tokens st)" "i < length (truncated st)"
    and first: "i = 0 \<longrightarrow> \<not> list_all (\<lambda>r. heap st r \<noteq> []) (gen_text st)"
  shows "\<exists>st'. slot_step enc a out i st = Inr st'
     \<and> truncated st' = (truncated st)[i := True]
     \<and> length (context_tokens st') = length (context_tokens st)
     \<and> context_tokens st' ! 0 = context_tokens st ! 0
     \<and> gen_text st' = gen_text st \<and> total_tokens st' = total_tokens st"
proof (cases "truncated st ! i")
  case True
  then have "(truncated st)[i := True] = truncated st"
    by (metis list_update_id)
  with True show ?thesis by (simp add: slot_step_def Let_def)
next
  case False
  with cfg i first show ?thesis
    by (cases "i = 0") (auto simp: slot_step_def Let_def)
qed

lemma slots_loop_fixed_length:
  assumes cfg: "\<not> truthy_str (truncate_arg a)" "\<not> truthy_str (prefix a)"
      "\<not> truthy_list (batch_prefix a)" "length_arg a = Some l"
  shows "l - 1 \<le> total_tokens st \<Longrightarrow> \<forall>j \<in> set js. j \<noteq> 0 \<and> j < length out
       \<and> j < length (context_tokens st) \<and> j < length (truncated st)
     \<Longrightarrow> \<exists>st'. slots_loop enc a out js st = Inr st'
        \<and> length (truncated st') = length (truncated st)
        \<and> (\<forall>j < length (truncated st). truncated st' ! j = (truncated st ! j \<or> j \<in> set js))
        \<and> length (context_tokens st') = length (context_tokens st)
        \<and> context_tokens st' ! 0 = context_tokens st ! 0"
proof (induction js arbitrary: st)
  case Nil
  then show ?case by simp
next
  case (Cons i js)
  from Cons.prems have i: "i < length out" "i < length (context_tokens st)"
    "i < length (truncated st)" "i = 0 \<longrightarrow> \<not> list_all (\<lambda>r. heap st r \<noteq> []) (gen_text st)"
    by auto
  from slot_step_fixed_length [OF cfg Cons.prems(1) i] obtain st1 where
    s: "slot_step enc a out i st = Inr st1"
    and t: "truncated st1 = (truncated st)[i := True]"
    and c: "length (context_tokens st1) = length (context_tokens st)"
      "context_tokens st1 ! 0 = context_tokens st ! 0"
    and tt: "total_tokens st1 = total_tokens st"
    by blast
  have p1: "l - 1 \<le> total_tokens st1" using Cons.prems(1) tt by simp
  have p2: "\<forall>j \<in> set js. j \<noteq> 0 \<and> j < length out
       \<and> j < length (context_tokens st1) \<and> j < length (truncated st1)"
    using Cons.prems(2) t c by simp
  from Cons.IH [OF p1 p2] obtain st' where
    r: "slots_loop enc a out js st1 = Inr st'"
      "length (truncated st') = length (truncated st1)"
      "\<forall>j < length (truncated st1). truncated st' ! j = (truncated st1 ! j \<or> j \<in> set js)"
      "length (context_tokens st') = length (context_tokens st1)"
      "context_tokens st' ! 0 = context_tokens st1 ! 0"
    by blast
  have "\<forall>j < length (truncated st). truncated st' ! j = (truncated st ! j \<or> j \<in> set (i # js))"
    using r(3) t i(3) by (auto simp: nth_list_update)
  with s r t c show ?case by simp
qed

lemma sample_while_fixed_length:
  assumes cfg: "\<not> truthy_str (truncate_arg a)" "\<not> truthy_str (prefix a)"
      "\<not> truthy_list (batch_prefix a)" "length_arg a = Some l"
    and rows: "\<forall>s c k. nat bs \<le> length (fst (run s c k))"
    and bs: "0 < bs"
    and ctx: "length ctx = nat bs" "l - 1 \<le> 1023 - int (length (ctx ! 0))"
  shows "\<exists>st' w'. sample_while (Suc (Suc n)) enc run a bs (init_gen_state ctx bs) w
       = Some (Inr st', w')
     \<and> length (context_tokens st') = nat bs \<and> context_tokens st' ! 0 = ctx ! 0"
proof -
  let ?st = "init_gen_state ctx bs"
  from bs ctx obtain c0 cs where c: "ctx = c0 # cs" by (cases ctx) auto
  let ?num = "1023 - int (length c0)"
  let ?len = "min (if truthy_int (length_arg a) then the (length_arg a) else 1023) ?num"
  obtain out s' where r: "run (session w) ctx ?len = (out, s')"
    by (cases "run (session w) ctx ?len") auto
  with rows have out: "nat bs \<le> length out" by (metis fst_conv)
  let ?w = "w\<lparr>session := s', calls := calls w @ [(ctx, ?len)]\<rparr>"
  let ?st1 = "?st\<lparr>total_tokens := total_tokens ?st + ?num\<rparr>"
  have tt: "l - 1 \<le> total_tokens ?st1" using ctx(2) c by (simp add: init_gen_state_def)
  have f0: "0 = 0 \<longrightarrow> \<not> list_all (\<lambda>r. heap ?st1 r \<noteq> []) (gen_text ?st1)"
    using bs by (cases "nat bs") (auto simp: init_gen_state_def)
  have i0: "0 < length out" "0 < length (context_tokens ?st1)" "0 < length (truncated ?st1)"
    using bs out c by (auto simp: init_gen_state_def)
  from slot_step_fixed_length [OF cfg tt i0 f0] obtain st2 where
    s0: "slot_step enc a out 0 ?st1 = Inr st2"
    and t2: "truncated st2 = (truncated ?st1)[0 := True]"
    and c2: "length (context_tokens st2) = length (context_tokens ?st1)"
      "context_tokens st2 ! 0 = context_tokens ?st1 ! 0"
    and tt2: "total_tokens st2 = total_tokens ?st1"
    by blast
  have p1: "l - 1 \<le> total_tokens st2" using tt tt2 by simp
  have p2: "\<forall>j \<in> set [1..<nat bs]. j \<noteq> 0 \<and> j < length out
       \<and> j < length (context_tokens st2) \<and> j < length (truncated st2)"
    using out c2 t2 ctx(1) by (auto simp: init_gen_state_def)
  from slots_loop_fixed_length [OF cfg p1 p2] obtain st3 where
    r3: "slots_loop enc a out [1..<nat bs] st2 = Inr st3"
      "length (truncated st3) = length (truncated st2)"
      "\<forall>j < length (truncated st2). truncated st3 ! j = (truncated st2 ! j \<or> j \<in> set [1..<nat bs])"
      "length (context_tokens st3) = length (context_tokens st2)"
      "context_tokens st3 ! 0 = context_tokens st2 ! 0"
    by blast
  have upt: "[0..<nat bs] = 0 # [1..<nat bs]" using bs by (simp add: upt_conv_Cons)
  have loop: "slots_loop enc a out [0..<nat bs] ?st1 = Inr st3"
    unfolding upt using s0 r3(1) by simp
  have len: "length (truncated st3) = nat bs"
    using r3(2) t2 by (simp add: init_gen_state_def)
  have "\<forall>j < nat bs. truncated st3 ! j"
  proof (intro allI impI)
    fix j assume j: "j < nat bs"
    then have "j < length (truncated st2)" using t2 by (simp add: init_gen_state_def)
    with r3(3) have "truncated st3 ! j = (truncated st2 ! j \<or> j \<in> set [1..<nat bs])" by blast
    moreover have "truncated st2 ! 0" using t2 bs by (simp add: init_gen_state_def)
    ultimately show "truncated st3 ! j" using j by (cases "j = 0") auto
  qed
  with len have alltrue: "False \<notin> set (truncated st3)"
    by (metis in_set_conv_nth)
  have start: "False \<in> set (truncated ?st)" using bs by (simp add: init_gen_state_def)
  have "sample_while (Suc (Suc n)) enc run a bs ?st w = sample_while (Suc n) enc run a bs st3 ?w"
    using start c r loop by (simp add: Let_def init_gen_state_def)
  also have "\<dots> = Some (Inr st3, ?w)" using alltrue by simp
  finally have "sample_while (Suc (Suc n)) enc run a bs ?st w = Some (Inr st3, ?w)" .
  moreover have "length (context_tokens st3) = nat bs" "context_tokens st3 ! 0 = ctx ! 0"
    using r3(4,5) c2 ctx(1) by (simp_all add: init_gen_state_def)
  ultimately show ?thesis by blast
qed

lemma batches_while_fixed_length:
  assumes cfg: "\<not> truthy_str (truncate_arg a)" "\<not> truthy_str (prefix a)"
      "\<not> truthy_list (batch_prefix a)" "length_arg a = Some l"
    and rows: "\<forall>s c k. nat bs \<le> length (fst (run s c k))"
    and bs: "0 < bs"
  shows "length ctx = nat bs \<Longrightarrow> l - 1 \<le> 1023 - int (length (ctx ! 0))
     \<Longrightarrow> nat (nsamples a - g) + 2 \<le> n
     \<Longrightarrow> \<exists>ts' w'. batches_while n enc run a delim bs g ts ctx w = Some (Inr ts', w')"
proof (induction n arbitrary: g ts ctx w)
  case 0
  then show ?case by simp
next
  case (Suc n)
  show ?case
  proof (cases "g < nsamples a")
    case False
    then show ?thesis by simp
  next
    case True
    with Suc.prems(3) obtain m where n: "n = Suc (Suc m)"
      by (cases n; cases "n - 1") auto
    from sample_while_fixed_length [OF cfg rows bs Suc.prems(1,2), of m enc w] n
    obtain st w1 where sw: "sample_while n enc run a bs (init_gen_state ctx bs) w
        = Some (Inr st, w1)"
      and c: "length (context_tokens st) = nat bs" "context_tokens st ! 0 = ctx ! 0"
      by blast
    have fuel: "nat (nsamples a - (g + bs)) + 2 \<le> n"
      using Suc.prems(3) True bs by auto
    have c2: "l - 1 \<le> 1023 - int (length (context_tokens st ! 0))"
      using c(2) Suc.prems(2) by simp
    from Suc.IH [OF c(1) c2 fuel] True sw show ?thesis
      by (simp add: Let_def)
  qed
qed

text \<open>
  With a length bound of at most 1023, no truncation term and no prefix, every batch
  takes one sampling pass: \<open>generate\<close> returns, with fuel \<open>nsamples + 2\<close>, whenever the
  model gives a row for every slot.
\<close>

lemma generate_returns_fixed_length:
  assumes "check_args a = None"
    and "\<not> truthy_str (truncate_arg a)" "\<not> truthy_str (prefix a)"
      "\<not> truthy_list (batch_prefix a)"
    and "length_arg a = Some l" "l \<le> 1023"
    and "\<forall>s c k. nat (effective_batch_size a) \<le> length (fst (run s c k))"
    and "0 < effective_batch_size a"
    and "nat (nsamples a) + 2 \<le> fuel"
  shows "\<exists>r w'. generate fuel enc run a w = Some (Inr r, w')"
proof -
  let ?a = "normalize_prefixes a"
  let ?bs = "effective_batch_size a"
  have cfg: "\<not> truthy_str (truncate_arg ?a)" "\<not> truthy_str (prefix ?a)"
      "\<not> truthy_list (batch_prefix ?a)" "length_arg ?a = Some l"
    using assms(2-5) by (auto simp: normalize_prefixes_def truthy_str_def truthy_list_def)
  have ctx: "initial_context enc ?a ?bs = replicate (nat ?bs) [endoftext enc]"
    using cfg by (simp add: initial_context_def)
  have c1: "length (initial_context enc ?a ?bs) = nat ?bs" by (simp add: ctx)
  have c2: "l - 1 \<le> 1023 - int (length (initial_context enc ?a ?bs ! 0))"
    using assms(6,8) by (simp add: ctx)
  have fuel: "nat (nsamples ?a - 0) + 2 \<le> fuel"
    using assms(9) by (simp add: normalize_prefixes_def)
  from batches_while_fixed_length [OF cfg assms(7,8) c1 c2 fuel]
  obtain ts' w' where "batches_while fuel enc run ?a
      (if nsamples a = 1 then [] else sample_delim a) ?bs 0 []
      (initial_context enc ?a ?bs)
      (if truthy_str (destination_path a)
       then w\<lparr>outputs := outputs w @ [Opened (the (destination_path a))]\<rparr> else w)
      = Some (Inr ts', w')"
    by blast
  with assms(1) show ?thesis by (simp add: generate_unfold Let_def)
qed

section \<open>Outputs of \<open>generate\<close>\<close>

lemma written_texts_append: "written_texts (xs @ ys) = written_texts xs @ written_texts ys"
  by (induction xs rule: written_texts.induct) simp_all

lemma printed_texts_append: "printed_texts (xs @ ys) = printed_texts xs @ printed_texts ys"
  by (induction xs rule: printed_texts.induct) simp_all

lemma written_texts_emit:
  "written_texts (concat (map (emit a delim) ts)) =
     (if truthy_str (destination_path a) then map (\<lambda>g. g @ [CHR 0x0A] @ delim) ts else [])"
  by (induction ts) (simp_all add: emit_def written_texts_append)

lemma printed_texts_emit:
  "printed_texts (concat (map (emit a delim) ts)) =
     (if \<not> return_as_list a \<and> \<not> truthy_str (destination_path a)
      then map (\<lambda>g. g @ [CHR 0x0A] @ delim) ts else [])"
  by (induction ts) (simp_all add: emit_def printed_texts_append)

lemma emit_normalize: "emit (normalize_prefixes a) = emit a"
  by (rule ext)+ (simp add: emit_def normalize_prefixes_def)

lemma nsamples_normalize: "nsamples (normalize_prefixes a) = nsamples a"
  by (simp add: normalize_prefixes_def)

lemma generate_outputs:
  assumes "generate fuel enc run a w = Some (Inr r, w')"
  shows "\<exists>ts. r = (if return_as_list a then Some ts else None)
     \<and> outputs w' = outputs w
         @ (if truthy_str (destination_path a) then [Opened (the (destination_path a))] else [])
         @ concat (map (emit a (if nsamples a = 1 then [] else sample_delim a)) ts)
         @ (if truthy_str (destination_path a) then [Closed] else [])
     \<and> (0 < nsamples a \<longrightarrow> int (length ts) = nsamples a)"
proof -
  let ?bs = "effective_batch_size a"
  let ?delim = "if nsamples a = 1 then [] else sample_delim a"
  let ?a = "normalize_prefixes a"
  let ?w0 = "if truthy_str (destination_path a)
             then w\<lparr>outputs := outputs w @ [Opened (the (destination_path a))]\<rparr> else w"
  from assms have chk: "check_args a = None"
    by (auto simp: generate_unfold split: option.splits)
  with assms obtain ts w1 where
    bw: "batches_while fuel enc run ?a ?delim ?bs 0 [] (initial_context enc ?a ?bs) ?w0
           = Some (Inr ts, w1)"
    and r: "r = (if return_as_list a then Some ts else None)"
    and w': "w' = (if truthy_str (destination_path a)
                   then w1\<lparr>outputs := outputs w1 @ [Closed]\<rparr> else w1)"
    by (auto simp: generate_unfold Let_def split: option.splits prod.splits sum.splits)
  from batches_while_texts [OF bw]
  have out: "outputs w1 = outputs ?w0 @ concat (map (emit a ?delim) ts)"
    by (simp add: emit_normalize)
  from chk have bs0: "?bs \<noteq> 0" and md: "nsamples a mod ?bs = 0"
    by (auto simp: check_args_def Let_def split: if_splits)
  have cnt: "int (length ts) = nsamples a" if pos: "0 < nsamples a"
  proof (cases "0 < ?bs")
    case True
    from batches_while_count [OF bw True] pos md show ?thesis
      by (simp add: nsamples_normalize)
  next
    case False
    with bs0 have "?bs < 0" by simp
    have "batches_while fuel enc run ?a ?delim ?bs 0 [] (initial_context enc ?a ?bs) ?w0
            \<noteq> Some (Inr ts, w1)"
      by (rule batches_while_negative) (use \<open>?bs < 0\<close> pos in \<open>simp_all add: nsamples_normalize\<close>)
    with bw show ?thesis by simp
  qed
  from r w' out cnt show ?thesis
    by (intro exI [of _ ts]) auto
qed

text \<open>
  C1. When \<open>generate\<close> returns, with \<open>nsamples\<close> a positive multiple of
  \<open>batch_size\<close>, it has produced exactly \<open>nsamples\<close> texts: the returned list has
  \<open>nsamples\<close> entries when \<open>return_as_list\<close> is set, \<open>nsamples\<close> texts were written
  when \<open>destination_path\<close> is set, and \<open>nsamples\<close> texts were printed when neither is
  set.
\<close>

theorem generate_produces_nsamples:
  assumes "generate fuel enc run a w = Some (Inr r, w')"
    and "0 < nsamples a"
    and "nsamples a mod effective_batch_size a = 0"
  shows "(return_as_list a \<longrightarrow> (\<exists>ts. r = Some ts \<and> int (length ts) = nsamples a))
     \<and> (truthy_str (destination_path a) \<longrightarrow>
          int (length (written_texts (outputs w')))
            = int (length (written_texts (outputs w))) + nsamples a)
     \<and> (\<not> truthy_str (destination_path a) \<and> \<not> return_as_list a \<longrightarrow>
          int (length (printed_texts (outputs w')))
            = int (length (printed_texts (outputs w))) + nsamples a)"
proof -
  from generate_outputs [OF assms(1)] assms(2) obtain ts where
    "r = (if return_as_list a then Some ts else None)"
    "outputs w' = outputs w
         @ (if truthy_str (destination_path a) then [Opened (the (destination_path a))] else [])
         @ concat (map (emit a (if nsamples a = 1 then [] else sample_delim a)) ts)
         @ (if truthy_str (destination_path a) then [Closed] else [])"
    "int (length ts) = nsamples a"
    by auto
  then show ?thesis
    by (simp add: written_texts_append printed_texts_append written_texts_emit
        printed_texts_emit)
qed

theorem generate_produces_nsamples_witness:
  "(\<exists>ts. Some [''xa'', ''yb''] = Some ts \<and> int (length ts) = 2)
   \<and> int (length (written_texts [Opened ''f'', Written (''xa'' @ [CHR 0x0A] @ ''--''),
          Written (''yb'' @ [CHR 0x0A] @ ''--''), Closed])) = int (length (written_texts [])) + 2
   \<and> int (length (printed_texts [Printed (''xa'' @ [CHR 0x0A])]))
        = int (length (printed_texts [])) + 1"
proof -
  let ?a = "default_args\<lparr>nsamples := 2, return_as_list := True,
      destination_path := Some ''f'', sample_delim := ''--''\<rparr>"
  let ?w = "\<lparr>session = 2, calls = [([[0]], 1022), ([[0]], 1022)],
      outputs = [Opened ''f'', Written (''xa'' @ [CHR 0x0A] @ ''--''),
          Written (''yb'' @ [CHR 0x0A] @ ''--''), Closed]\<rparr> :: nat world"
  have h: "generate (Suc (Suc (Suc (Suc 0)))) char_encoder
      (script_run [[[120, 97]], [[121, 98]]]) ?a empty_world = Some (Inr (Some [''xa'', ''yb'']), ?w)"
    by code_simp
  have p: "0 < nsamples ?a" by (simp add: default_args_def)
  have m: "nsamples ?a mod effective_batch_size ?a = 0"
    by (simp add: default_args_def effective_batch_size_def)
  let ?w2 = "\<lparr>session = 1, calls = [([[0]], 1022)],
      outputs = [Printed (''xa'' @ [CHR 0x0A])]\<rparr> :: nat world"
  have h2: "generate (Suc (Suc (Suc 0))) char_encoder
      (script_run [[[120, 97]]]) default_args empty_world = Some (Inr None, ?w2)"
    by code_simp
  have p2: "0 < nsamples default_args" by (simp add: default_args_def)
  have m2: "nsamples default_args mod effective_batch_size default_args = 0"
    by (simp add: default_args_def effective_batch_size_def)
  from generate_produces_nsamples [OF h p m] generate_produces_nsamples [OF h2 p2 m2]
  show ?thesis
    by (simp add: default_args_def truthy_str_def empty_world_def)
qed

text \<open>
  C4 (as amended). When \<open>generate\<close> returns, there is one list of generated texts such
  that: it is the returned value exactly when \<open>return_as_list\<close> is set; each text,
  followed by a newline and the delimiter, is written exactly when \<open>destination_path\<close>
  is set; each is printed exactly when neither is set. So every text gets at least one
  of the three outputs, printing excludes the other two, and a text is both written and
  returned when \<open>destination_path\<close> and \<open>return_as_list\<close> are both set.
\<close>

theorem generate_output_modes:
  assumes "generate fuel enc run a w = Some (Inr r, w')"
  shows "\<exists>ts. r = (if return_as_list a then Some ts else None)
     \<and> written_texts (outputs w') = written_texts (outputs w)
         @ (if truthy_str (destination_path a)
            then map (\<lambda>g. g @ [CHR 0x0A] @ (if nsamples a = 1 then [] else sample_delim a)) ts
            else [])
     \<and> printed_texts (outputs w') = printed_texts (outputs w)
         @ (if \<not> return_as_list a \<and> \<not> truthy_str (destination_path a)
            then map (\<lambda>g. g @ [CHR 0x0A] @ (if nsamples a = 1 then [] else sample_delim a)) ts
            else [])"
proof -
  from generate_outputs [OF assms] obtain ts where
    "r = (if return_as_list a then Some ts else None)"
    "outputs w' = outputs w
         @ (if truthy_str (destination_path a) then [Opened (the (destination_path a))] else [])
         @ concat (map (emit a (if nsamples a = 1 then [] else sample_delim a)) ts)
         @ (if truthy_str (destination_path a) then [Closed] else [])"
    "0 < nsamples a \<longrightarrow> int (length ts) = nsamples a"
    by auto
  then show ?thesis
    by (intro exI [of _ ts])
      (simp add: written_texts_append printed_texts_append written_texts_emit
        printed_texts_emit)
qed

theorem generate_output_modes_witness:
  "\<exists>ts. Some [''xa''] = Some ts
     \<and> written_texts [Opened ''f'', Written (''xa'' @ [CHR 0x0A]), Closed]
         = map (\<lambda>g. g @ [CHR 0x0A]) ts
     \<and> printed_texts [Opened ''f'', Written (''xa'' @ [CHR 0x0A]), Closed] = []"
proof -
  let ?a = "default_args\<lparr>destination_path := Some ''f'', return_as_list := True\<rparr>"
  have h: "generate (Suc (Suc (Suc 0))) char_encoder (script_run [[[120, 97]]]) ?a empty_world
   = Some (Inr (Some [''xa'']),
       \<lparr>session = 1, calls = [([[0]], 1022)],
        outputs = [Opened ''f'', Written (''xa'' @ [CHR 0x0A]), Closed]\<rparr>)"
    by code_simp
  from generate_output_modes [OF h] show ?thesis
    by (simp add: default_args_def truthy_str_def empty_world_def)
qed

text \<open>
  C4 as stated fails: with \<open>destination_path\<close> and \<open>return_as_list\<close> both set, the
  one generated text is written to the file and is also in the returned list.
\<close>

theorem generate_output_modes_counterexample:
  "generate (Suc (Suc (Suc 0))) char_encoder (script_run [[[120, 97]]])
     (default_args\<lparr>destination_path := Some ''f'', return_as_list := True\<rparr>) empty_world
   = Some (Inr (Some [''xa'']),
       \<lparr>session = 1, calls = [([[0]], 1022)],
        outputs = [Opened ''f'', Written (''xa'' @ [CHR 0x0A]), Closed]\<rparr>)"
  by code_simp

section \<open>Empty prefixes\<close>

lemma sample_while_calls:
  "sample_while n enc run a bs st w = Some (res, w')
   \<Longrightarrow> \<exists>more. calls w' = calls w @ more
         \<and> (more \<noteq> [] \<longrightarrow> fst (hd more) = context_tokens st)
         \<and> (more = [] \<longrightarrow> (\<forall>st'. res = Inr st' \<longrightarrow> st' = st))"
proof (induction n arbitrary: st w)
  case 0
  then show ?case by simp
next
  case (Suc n)
  show ?case
  proof (cases "False \<in> set (truncated st)")
    case False
    with Suc.prems show ?thesis by auto
  next
    case True
    show ?thesis
    proof (cases "context_tokens st")
      case Nil
      with True Suc.prems show ?thesis by auto
    next
      case (Cons c0 cs)
      let ?len = "min (if truthy_int (length_arg a) then the (length_arg a) else 1023)
                      (1023 - int (length c0))"
      obtain out s' where r: "run (session w) (context_tokens st) ?len = (out, s')"
        by (cases "run (session w) (context_tokens st) ?len") auto
      let ?w = "w\<lparr>session := s', calls := calls w @ [(context_tokens st, ?len)]\<rparr>"
      let ?st1 = "st\<lparr>total_tokens := total_tokens st + (1023 - int (length c0))\<rparr>"
      show ?thesis
      proof (cases "slots_loop enc a out [0..<nat bs] ?st1")
        case (Inl e)
        with Suc.prems True Cons r have "w' = ?w" "res = Inl e"
          by (auto simp: Let_def)
        then show ?thesis
          by (intro exI [of _ "[(context_tokens st, ?len)]"]) simp
      next
        case (Inr st2)
        with Suc.prems True Cons r
        have rec: "sample_while n enc run a bs st2 ?w = Some (res, w')"
          by (auto simp: Let_def)
        from Suc.IH [OF rec] obtain more where "calls w' = calls ?w @ more" by auto
        then show ?thesis
          by (intro exI [of _ "(context_tokens st, ?len) # more"]) simp
      qed
    qed
  qed
qed

lemma batches_while_calls:
  "batches_while n enc run a delim bs g ts ctx w = Some (res, w')
   \<Longrightarrow> \<exists>more. calls w' = calls w @ more \<and> (more \<noteq> [] \<longrightarrow> fst (hd more) = ctx)"
proof (induction n arbitrary: g ts ctx w)
  case 0
  then show ?case by simp
next
  case (Suc n)
  show ?case
  proof (cases "g < nsamples a")
    case False
    with Suc.prems show ?thesis by auto
  next
    case True
    with Suc.prems obtain r1 w1 where
      sw: "sample_while n enc run a bs (init_gen_state ctx bs) w = Some (r1, w1)"
      by (auto split: option.splits)
    from sample_while_calls [OF sw] obtain more1 where
      m1: "calls w1 = calls w @ more1"
        "more1 \<noteq> [] \<longrightarrow> fst (hd more1) = ctx"
        "more1 = [] \<longrightarrow> (\<forall>st'. r1 = Inr st' \<longrightarrow> st' = init_gen_state ctx bs)"
      by (auto simp: init_gen_state_def)
    show ?thesis
    proof (cases r1)
      case (Inl e)
      with Suc.prems True sw have "w' = w1" by simp
      with m1 show ?thesis by auto
    next
      case (Inr st)
      let ?w = "w1\<lparr>outputs := outputs w1 @ concat (map (emit a delim) (slot_texts enc st))\<rparr>"
      from Inr Suc.prems True sw
      have rec: "batches_while n enc run a delim bs (g + bs) (ts @ slot_texts enc st)
          (context_tokens st) ?w = Some (res, w')"
        by (simp add: Let_def)
      from Suc.IH [OF rec] obtain more2 where
        m2: "calls w' = calls ?w @ more2" "more2 \<noteq> [] \<longrightarrow> fst (hd more2) = context_tokens st"
        by auto
      show ?thesis
      proof (cases "more1 = []")
        case True
        with m1 Inr have "st = init_gen_state ctx bs" by simp
        then have "context_tokens st = ctx" by (simp add: init_gen_state_def)
        with m1 m2 True show ?thesis by (intro exI [of _ more2]) simp
      next
        case False
        with m1 m2 show ?thesis by (intro exI [of _ "more1 @ more2"]) simp
      qed
    qed
  qed
qed

lemma generate_first_call:
  assumes "generate fuel enc run a w = Some (res, w')"
  shows "\<exists>more. calls w' = calls w @ more
     \<and> (more \<noteq> [] \<longrightarrow> fst (hd more)
           = initial_context enc (normalize_prefixes a) (effective_batch_size a))"
proof (cases "check_args a")
  case (Some e)
  with assms have "w' = w" by (simp add: generate_unfold)
  then show ?thesis by simp
next
  case None
  let ?bs = "effective_batch_size a"
  let ?a = "normalize_prefixes a"
  let ?w0 = "if truthy_str (destination_path a)
             then w\<lparr>outputs := outputs w @ [Opened (the (destination_path a))]\<rparr> else w"
  from None assms obtain r1 w1 where
    bw: "batches_while fuel enc run ?a (if nsamples a = 1 then [] else sample_delim a) ?bs 0 []
           (initial_context enc ?a ?bs) ?w0 = Some (r1, w1)"
    and w': "calls w' = calls w1"
    by (auto simp: generate_unfold Let_def split: option.splits prod.splits sum.splits if_splits)
  from batches_while_calls [OF bw] w' show ?thesis by auto
qed

lemma check_args_empty_prefix:
  "check_args (a\<lparr>prefix := Some []\<rparr>) = check_args (a\<lparr>prefix := None\<rparr>)"
  by (simp add: check_args_def effective_batch_size_def truthy_str_def Let_def)

lemma check_args_empty_batch_prefix:
  "check_args (a\<lparr>batch_prefix := Some []\<rparr>) = check_args (a\<lparr>batch_prefix := None\<rparr>)"
  by (simp add: check_args_def effective_batch_size_def truthy_list_def Let_def)

lemma normalize_empty_prefix:
  "normalize_prefixes (a\<lparr>prefix := Some []\<rparr>) = normalize_prefixes (a\<lparr>prefix := None\<rparr>)"
  by (simp add: normalize_prefixes_def)

lemma normalize_empty_batch_prefix:
  "normalize_prefixes (a\<lparr>batch_prefix := Some []\<rparr>)
     = normalize_prefixes (a\<lparr>batch_prefix := None\<rparr>)"
  by (simp add: normalize_prefixes_def)

lemma generate_cong:
  assumes "check_args a = check_args b" and "normalize_prefixes a = normalize_prefixes b"
    and "effective_batch_size a = effective_batch_size b" and "nsamples a = nsamples b"
    and "sample_delim a = sample_delim b" and "destination_path a = destination_path b"
    and "return_as_list a = return_as_list b"
  shows "generate fuel enc run a w = generate fuel enc run b w"
  unfolding generate_unfold assms ..

lemma preamble_Inr:
  "preamble a = Inr (bs, delim, a') \<Longrightarrow>
     bs = effective_batch_size a \<and> a' = normalize_prefixes a \<and> check_args a = None"
  by (auto simp: preamble_def check_args_def normalize_prefixes_def Let_def split: if_splits)

text \<open>
  C10 (as amended). When the assertions of lines 438 to 443 pass, the arguments the
  rest of \<open>generate\<close> works with have \<open>prefix = None\<close> in place of an empty string and
  \<open>batch_prefix = None\<close> in place of an empty list, and with both absent or empty the
  context built for each of the \<open>batch_size\<close> slots is the single \<open>endoftext\<close> token.
  For every call, an empty \<open>prefix\<close> and an empty \<open>batch_prefix\<close> give the same run
  as \<open>None\<close>, whatever the other arguments, the model and the fuel; and the first
  sampling call of a run that ends, if there is one, gets that context.
\<close>

theorem generate_empty_prefix_is_none:
  "(preamble a = Inr (bs, delim, a') \<longrightarrow>
      prefix a' = (if prefix a = Some [] then None else prefix a)
      \<and> batch_prefix a' = (if batch_prefix a = Some [] then None else batch_prefix a)
      \<and> ((prefix a = Some [] \<or> prefix a = None)
           \<and> (batch_prefix a = Some [] \<or> batch_prefix a = None)
          \<longrightarrow> initial_context enc a' bs = replicate (nat bs) [endoftext enc]))
   \<and> generate fuel enc run (a\<lparr>prefix := Some []\<rparr>) w
       = generate fuel enc run (a\<lparr>prefix := None\<rparr>) w
   \<and> generate fuel enc run (a\<lparr>batch_prefix := Some []\<rparr>) w
       = generate fuel enc run (a\<lparr>batch_prefix := None\<rparr>) w
   \<and> ((prefix a = Some [] \<or> prefix a = None)
        \<and> (batch_prefix a = Some [] \<or> batch_prefix a = None)
        \<and> generate fuel enc run a w = Some (res, w')
      \<longrightarrow> (\<exists>more. calls w' = calls w @ more
             \<and> (more \<noteq> [] \<longrightarrow> fst (hd more)
                  = replicate (nat (effective_batch_size a)) [endoftext enc])))"
proof (rule conjI, rule impI)
  assume "preamble a = Inr (bs, delim, a')"
  from preamble_Inr [OF this] have a': "a' = normalize_prefixes a" by simp
  show "prefix a' = (if prefix a = Some [] then None else prefix a)
      \<and> batch_prefix a' = (if batch_prefix a = Some [] then None else batch_prefix a)
      \<and> ((prefix a = Some [] \<or> prefix a = None)
           \<and> (batch_prefix a = Some [] \<or> batch_prefix a = None)
          \<longrightarrow> initial_context enc a' bs = replicate (nat bs) [endoftext enc])"
    unfolding a'
    by (auto simp: normalize_prefixes_def initial_context_def truthy_str_def truthy_list_def)
next
  have 1: "generate fuel enc run (a\<lparr>prefix := Some []\<rparr>) w
      = generate fuel enc run (a\<lparr>prefix := None\<rparr>) w"
    by (rule generate_cong)
      (simp_all add: check_args_empty_prefix normalize_empty_prefix effective_batch_size_def)
  have 2: "generate fuel enc run (a\<lparr>batch_prefix := Some []\<rparr>) w
      = generate fuel enc run (a\<lparr>batch_prefix := None\<rparr>) w"
    by (rule generate_cong)
      (simp_all add: check_args_empty_batch_prefix normalize_empty_batch_prefix
        effective_batch_size_def)
  have 3: "(prefix a = Some [] \<or> prefix a = None)
        \<and> (batch_prefix a = Some [] \<or> batch_prefix a = None)
        \<and> generate fuel enc run a w = Some (res, w')
      \<longrightarrow> (\<exists>more. calls w' = calls w @ more
             \<and> (more \<noteq> [] \<longrightarrow> fst (hd more)
                  = replicate (nat (effective_batch_size a)) [endoftext enc]))"
  proof
    assume h: "(prefix a = Some [] \<or> prefix a = None)
        \<and> (batch_prefix a = Some [] \<or> batch_prefix a = None)
        \<and> generate fuel enc run a w = Some (res, w')"
    then have "initial_context enc (normalize_prefixes a) (effective_batch_size a)
        = replicate (nat (effective_batch_size a)) [endoftext enc]"
      by (auto simp: initial_context_def normalize_prefixes_def truthy_str_def truthy_list_def)
    with generate_first_call [of fuel enc run a w res w'] h
    show "\<exists>more. calls w' = calls w @ more
             \<and> (more \<noteq> [] \<longrightarrow> fst (hd more)
                  = replicate (nat (effective_batch_size a)) [endoftext enc])"
      by simp
  qed
  from 1 2 3 show "generate fuel enc run (a\<lparr>prefix := Some []\<rparr>) w
       = generate fuel enc run (a\<lparr>prefix := None\<rparr>) w
   \<and> generate fuel enc run (a\<lparr>batch_prefix := Some []\<rparr>) w
       = generate fuel enc run (a\<lparr>batch_prefix := None\<rparr>) w
   \<and> ((prefix a = Some [] \<or> prefix a = None)
        \<and> (batch_prefix a = Some [] \<or> batch_prefix a = None)
        \<and> generate fuel enc run a w = Some (res, w')
      \<longrightarrow> (\<exists>more. calls w' = calls w @ more
             \<and> (more \<noteq> [] \<longrightarrow> fst (hd more)
                  = replicate (nat (effective_batch_size a)) [endoftext enc])))"
    by blast
qed

theorem generate_empty_prefix_is_none_witness:
  "prefix (default_args\<lparr>prefix := None\<rparr>) = None
   \<and> initial_context char_encoder (default_args\<lparr>prefix := None\<rparr>) 1
       = replicate (nat 1) [endoftext char_encoder]
   \<and> generate (Suc (Suc (Suc 0))) char_encoder (script_run [[[120, 97]]])
      (default_args\<lparr>prefix := Some []\<rparr>) empty_world
    = generate (Suc (Suc (Suc 0))) char_encoder (script_run [[[120, 97]]])
      (default_args\<lparr>prefix := None\<rparr>) empty_world
   \<and> (\<exists>more. [([[0]], 1022)] = [] @ more
         \<and> (more \<noteq> [] \<longrightarrow> fst (hd more) = replicate (nat 1) [endoftext char_encoder]))"
proof -
  let ?a = "default_args\<lparr>prefix := Some []\<rparr>"
  let ?w = "\<lparr>session = 1, calls = [([[0]], 1022)],
        outputs = [Printed (''xa'' @ [CHR 0x0A])]\<rparr> :: nat world"
  have pre: "preamble ?a = Inr (1, [], default_args\<lparr>prefix := None\<rparr>)"
    by (simp add: preamble_def normalize_prefixes_def effective_batch_size_def
        default_args_def truthy_str_def truthy_list_def truthy_int_def)
  have h: "generate (Suc (Suc (Suc 0))) char_encoder (script_run [[[120, 97]]]) ?a empty_world
     = Some (Inr None, ?w)"
    by code_simp
  have p: "prefix ?a = Some [] \<or> prefix ?a = None" by simp
  have b: "batch_prefix ?a = Some [] \<or> batch_prefix ?a = None" by (simp add: default_args_def)
  from generate_empty_prefix_is_none [of ?a 1 "[]" "default_args\<lparr>prefix := None\<rparr>"
      char_encoder "Suc (Suc (Suc 0))" "script_run [[[120, 97]]]" empty_world "Inr None" ?w]
    pre h p b
  show ?thesis
    by (simp add: empty_world_def effective_batch_size_def default_args_def)
qed

text \<open>
  C10 as stated fails in "before any other processing": with \<open>prefix = ''\<close>,
  \<open>nsamples = 3\<close> and \<open>batch_size = 2\<close> the assertion of line 438 is evaluated, and
  raises, while \<open>prefix\<close> is still the empty string.
\<close>

theorem generate_empty_prefix_counterexample:
  "(case preamble (default_args\<lparr>prefix := Some [], nsamples := 3, batch_size := Some 2\<rparr>) of
      Inl (e, l) \<Rightarrow> e = AssertionError \<and> prefix l = Some []
    | Inr r \<Rightarrow> False)"
  by (simp add: preamble_def effective_batch_size_def default_args_def)

section \<open>The shared list of \<open>gen_text\<close>\<close>

text \<open>
  C2, evaluated at \<open>nsamples = 2\<close>, \<open>batch_size = 2\<close> and the other arguments at
  their defaults. After the step of slot 0 its flag is set and the list it refers to
  holds one chunk; the step of slot 1 then adds a chunk to the list slot 0 refers to,
  because both entries of \<open>gen_text\<close> refer to the same list. Both returned texts are
  the text of slot 0 followed by text of slot 1.
\<close>

theorem gen_text_shared_after_truncation:
  "(case slot_step char_encoder (default_args\<lparr>nsamples := 2, batch_size := Some 2\<rparr>)
          [[120, 97], [121, 98]] 0 ((init_gen_state [[0], [0]] 2)\<lparr>total_tokens := 1022\<rparr>) of
      Inl e \<Rightarrow> False
    | Inr st1 \<Rightarrow>
        truncated st1 ! 0 \<and> heap st1 (gen_text st1 ! 0) = [[120, 97]]
        \<and> (case slot_step char_encoder (default_args\<lparr>nsamples := 2, batch_size := Some 2\<rparr>)
                [[120, 97], [121, 98]] 1 st1 of
              Inl e \<Rightarrow> False
            | Inr st2 \<Rightarrow> truncated st2 ! 0 \<and> heap st2 (gen_text st2 ! 0) = [[120, 97], [98]]))
   \<and> generate (Suc (Suc (Suc 0))) char_encoder (script_run [[[120, 97], [121, 98]]])
       (default_args\<lparr>nsamples := 2, batch_size := Some 2, return_as_list := True\<rparr>) empty_world
     = Some (Inr (Some [''xab'', ''xab'']),
         \<lparr>session = 1, calls = [([[0], [0]], 1022)], outputs = []\<rparr>)"
  by code_simp

theorem gen_text_shared_after_truncation_witness:
  "generate (Suc (Suc (Suc 0))) char_encoder (script_run [[[120, 97], [121, 98]]])
       (default_args\<lparr>nsamples := 2, batch_size := Some 2, return_as_list := True\<rparr>) empty_world
     = Some (Inr (Some [''xab'', ''xab'']),
         \<lparr>session = 1, calls = [([[0], [0]], 1022)], outputs = []\<rparr>)"
  using gen_text_shared_after_truncation by (rule conjunct2)

section \<open>Truncation at a delimiter\<close>

lemma starts_with_iff: "starts_with t s = (\<exists>r. s = t @ r)"
  by (induction t s rule: starts_with.induct) auto

lemma starts_with_take: "starts_with t (take n s) \<Longrightarrow> starts_with t s"
proof -
  assume "starts_with t (take n s)"
  then obtain r where "take n s = t @ r" by (auto simp: starts_with_iff)
  then have "s = t @ (r @ drop n s)" by (metis append_assoc append_take_drop_id)
  then show ?thesis unfolding starts_with_iff by blast
qed

lemma find_sub_take_None:
  "find_sub t s = Some k \<Longrightarrow> t \<noteq> [] \<Longrightarrow> find_sub t (take k s) = None"
proof (induction s arbitrary: k)
  case Nil
  then show ?case by simp
next
  case (Cons c s)
  show ?case
  proof (cases "starts_with t (c # s)")
    case True
    with Cons.prems show ?thesis by simp
  next
    case False
    with Cons.prems obtain k' where k': "find_sub t s = Some k'" "k = Suc k'"
      by (auto split: option.splits)
    have "\<not> starts_with t (c # take k' s)"
      using False starts_with_take [of t "Suc k'" "c # s"] by auto
    with Cons.IH [OF k'(1) Cons.prems(2)] k' show ?thesis by simp
  qed
qed

lemma find_sub_drop_None: "find_sub t s = None \<Longrightarrow> find_sub t (drop n s) = None"
proof (induction s arbitrary: n)
  case Nil
  then show ?case by simp
next
  case (Cons c s)
  then have "find_sub t s = None" by (auto split: if_splits option.splits)
  with Cons show ?case by (cases n) auto
qed

lemma find_sub_occurs:
  "find_sub t s = Some k \<Longrightarrow> \<exists>r. drop k s = t @ r"
proof (induction s arbitrary: k)
  case Nil
  then show ?case by (auto split: if_splits)
next
  case (Cons c s)
  then show ?case
    by (auto simp: starts_with_iff split: if_splits option.splits)
qed

lemma find_sub_None_iff: "(find_sub t s = None) = (\<nexists>ps ss. s = ps @ t @ ss)"
proof (induction s)
  case Nil
  then show ?case by auto
next
  case (Cons c s)
  show ?case
  proof (cases "starts_with t (c # s)")
    case True
    then obtain r where "c # s = [] @ t @ r" by (auto simp: starts_with_iff)
    with True show ?thesis by (metis find_sub.simps(2) option.distinct(1))
  next
    case False
    have "(\<exists>ps ss. c # s = ps @ t @ ss) = (\<exists>ps ss. s = ps @ t @ ss)"
    proof
      assume "\<exists>ps ss. c # s = ps @ t @ ss"
      then obtain ps ss where e: "c # s = ps @ t @ ss" by blast
      show "\<exists>ps ss. s = ps @ t @ ss"
      proof (cases ps)
        case Nil
        with e have "starts_with t (c # s)" by (auto simp: starts_with_iff)
        with False show ?thesis by simp
      next
        case (Cons p ps')
        with e have "s = ps' @ t @ ss" by simp
        then show ?thesis by blast
      qed
    next
      assume "\<exists>ps ss. s = ps @ t @ ss"
      then obtain ps ss where "s = ps @ t @ ss" by blast
      then have "c # s = (c # ps) @ t @ ss" by simp
      then show "\<exists>ps ss. c # s = ps @ t @ ss" by blast
    qed
    with False Cons show ?thesis by (auto split: option.splits)
  qed
qed

lemma re_search_group_no_term:
  assumes "re_search_group pre t s = Some g" and "t \<noteq> []"
  shows "\<not> contains t g"
  using assms
  by (auto simp: re_search_group_def contains_def Let_def find_sub_take_None
      split: option.splits)

lemma lstrip_nl_no_term: "\<not> contains t g \<Longrightarrow> \<not> contains t (lstrip_nl g)"
  by (simp add: contains_def lstrip_nl_def dropWhile_eq_drop find_sub_drop_None)

lemma find_sub_le: "find_sub t s = Some k \<Longrightarrow> k \<le> length s"
  by (induction s arbitrary: k) (auto split: if_splits option.splits)

lemma find_sub_split:
  assumes "find_sub t s = Some k"
  shows "\<exists>rest. s = take k s @ t @ rest"
proof -
  from find_sub_occurs [OF assms] obtain r where "drop k s = t @ r" ..
  then have "s = take k s @ t @ r" by (metis append_take_drop_id)
  then show ?thesis ..
qed

lemma find_sub_first:
  "find_sub t s = Some k \<Longrightarrow> s = ps @ t @ ss \<Longrightarrow> k \<le> length ps"
proof (induction s arbitrary: k ps)
  case Nil
  then show ?case by (auto split: if_splits)
next
  case (Cons c s)
  show ?case
  proof (cases "starts_with t (c # s)")
    case True
    then have "find_sub t (c # s) = Some 0" by simp
    with Cons.prems(1) show ?thesis by simp
  next
    case False
    with Cons.prems(1) obtain k' where k': "find_sub t s = Some k'" "k = Suc k'"
      by (auto split: option.splits)
    from False Cons.prems(2) obtain p ps' where ps: "ps = p # ps'"
      by (cases ps) (auto simp: starts_with_iff)
    with Cons.prems(2) have "s = ps' @ t @ ss" by simp
    from Cons.IH [OF k'(1) this] k' ps show ?thesis by simp
  qed
qed

text \<open>
  What the search gives: without a prefix, the text before the first occurrence of
  \<open>t\<close>; with a prefix \<open>p\<close>, the text between the first occurrence of \<open>p\<close> and the
  first occurrence of \<open>t\<close> after it. Without a prefix the search succeeds exactly when
  \<open>t\<close> occurs.
\<close>

lemma re_search_group_occurs:
  "(re_search_group None t s \<noteq> None) = (\<exists>ps ss. s = ps @ t @ ss)"
  using find_sub_None_iff [of t s]
  by (auto simp: re_search_group_def split: option.splits)

lemma re_search_group_plain:
  assumes "re_search_group None t s = Some g"
  shows "\<exists>rest. s = g @ t @ rest \<and> (\<forall>ps ss. s = ps @ t @ ss \<longrightarrow> length g \<le> length ps)"
proof -
  from assms obtain k where k: "find_sub t s = Some k" and g: "g = take k s"
    by (auto simp: re_search_group_def split: option.splits)
  from find_sub_split [OF k] g obtain rest where r: "s = g @ t @ rest" by auto
  from find_sub_le [OF k] g have "length g = k" by simp
  with find_sub_first [OF k] have "\<forall>ps ss. s = ps @ t @ ss \<longrightarrow> length g \<le> length ps"
    by simp
  with r show ?thesis by blast
qed

lemma re_search_group_prefixed:
  assumes "re_search_group (Some p) t s = Some g"
  shows "\<exists>before rest. s = before @ p @ g @ t @ rest
     \<and> (\<forall>ps ss. s = ps @ p @ ss \<longrightarrow> length before \<le> length ps)
     \<and> (\<forall>ps ss. g @ t @ rest = ps @ t @ ss \<longrightarrow> length g \<le> length ps)"
proof -
  from assms obtain j k where j: "find_sub p s = Some j"
    and k: "find_sub t (drop (j + length p) s) = Some k"
    and g: "g = take k (drop (j + length p) s)"
    by (auto simp: re_search_group_def Let_def split: option.splits)
  let ?r = "drop (j + length p) s"
  from find_sub_occurs [OF j] obtain r1 where r1: "drop j s = p @ r1" ..
  then have s: "s = take j s @ p @ r1" by (metis append_take_drop_id)
  have "?r = drop (length p) (drop j s)" by (simp add: add.commute)
  with r1 have rr: "?r = r1" by simp
  from find_sub_split [OF k] g obtain rest where rest: "?r = g @ t @ rest" by auto
  from find_sub_le [OF j] have lj: "length (take j s) = j" by simp
  from find_sub_le [OF k] g have lk: "length g = k" by simp
  have a: "s = take j s @ p @ g @ t @ rest" using s rr rest by simp
  have b: "\<forall>ps ss. s = ps @ p @ ss \<longrightarrow> length (take j s) \<le> length ps"
    using find_sub_first [OF j] lj by simp
  have c: "\<forall>ps ss. g @ t @ rest = ps @ t @ ss \<longrightarrow> length g \<le> length ps"
    using find_sub_first [OF k] lk rest by simp
  from a b c show ?thesis by blast
qed

lemma slot_step_match:
  assumes st: "gen_text st = [0]" "truncated st = [False]" "context_tokens st = [c0]"
    and tr: "truncate_arg a = Some T" "T \<noteq> []"
    and search: "re_search_group
        (if truthy_str (prefix a) \<and> \<not> include_prefix a then prefix a else None) T
        (decode enc
          (if heap st 0 \<noteq> [] then slice_from row (text_split_index a (length row))
           else if truthy_str (prefix a) \<or> truthy_list (batch_prefix a) then take 1 c0 @ row
           else row)) = Some g"
  shows "\<exists>st'. slot_step enc a (row # rows) 0 st = Inr st'
     \<and> truncated st' = [True] \<and> gen_text st' = [0] \<and> heap st' 0 = heap st 0 @ [encode enc g]"
  using assms
  by (auto simp: slot_step_def Let_def truthy_str_def)

text \<open>
  C3 (as amended). One slot (\<open>batch_size = 1\<close>), a non-empty truncation term \<open>T\<close>, and
  a sampling pass whose decoded text \<open>s\<close> the search pattern matches (without prefix
  exclusion: a pass whose text contains \<open>T\<close>). Then the slot is marked truncated and
  the loop returns. The text \<open>g\<close> kept for that pass is the text of \<open>s\<close> before the
  first occurrence of \<open>T\<close>; when the prefix is excluded, it is the text between the
  first occurrence of the prefix and the first occurrence of \<open>T\<close> after it. It does
  not contain \<open>T\<close>. The text of the slot is the text of the earlier passes followed by
  \<open>g\<close>, each piece stripped of leading newlines. The tokenizer is assumed to decode
  the encoded \<open>g\<close> to itself; the split index is whatever the float computation of the
  source gives.
\<close>

theorem sample_pass_truncates:
  assumes st: "gen_text st = [0]" "truncated st = [False]" "context_tokens st = [c0]"
    and tr: "truncate_arg a = Some T" "T \<noteq> []"
    and run: "run (session w) [c0]
        (min (if truthy_int (length_arg a) then the (length_arg a) else 1023)
             (1023 - int (length c0))) = (row # rows, s')"
    and dec: "s = decode enc
          (if heap st 0 \<noteq> [] then slice_from row (text_split_index a (length row))
           else if truthy_str (prefix a) \<or> truthy_list (batch_prefix a) then take 1 c0 @ row
           else row)"
    and search: "re_search_group
        (if truthy_str (prefix a) \<and> \<not> include_prefix a then prefix a else None) T s = Some g"
    and rt: "decode enc (encode enc g) = g"
  shows "\<exists>st' w'. sample_while (Suc (Suc n)) enc run a 1 st w = Some (Inr st', w')
     \<and> truncated st' = [True]
     \<and> slot_texts enc st'
         = [concat (map (\<lambda>c. lstrip_nl (decode enc c)) (heap st 0)) @ lstrip_nl g]
     \<and> \<not> contains T g \<and> \<not> contains T (lstrip_nl g)
     \<and> (if truthy_str (prefix a) \<and> \<not> include_prefix a
         then \<exists>before rest. s = before @ the (prefix a) @ g @ T @ rest
                \<and> (\<forall>ps ss. s = ps @ the (prefix a) @ ss \<longrightarrow> length before \<le> length ps)
                \<and> (\<forall>ps ss. g @ T @ rest = ps @ T @ ss \<longrightarrow> length g \<le> length ps)
         else \<exists>rest. s = g @ T @ rest
                \<and> (\<forall>ps ss. s = ps @ T @ ss \<longrightarrow> length g \<le> length ps))"
proof -
  let ?num = "1023 - int (length c0)"
  let ?st1 = "st\<lparr>total_tokens := total_tokens st + ?num\<rparr>"
  have st1: "gen_text ?st1 = [0]" "truncated ?st1 = [False]" "context_tokens ?st1 = [c0]"
    and h1: "heap ?st1 = heap st"
    using st by simp_all
  from slot_step_match [of ?st1 c0 a T enc row g rows, OF st1 tr] search dec h1
  obtain st' where
    step: "slot_step enc a (row # rows) 0 ?st1 = Inr st'"
    and st': "truncated st' = [True]" "gen_text st' = [0]"
      "heap st' 0 = heap st 0 @ [encode enc g]"
    by auto
  let ?w = "w\<lparr>session := s', calls := calls w @ [([c0],
      min (if truthy_int (length_arg a) then the (length_arg a) else 1023) ?num)]\<rparr>"
  from step have loop: "slots_loop enc a (row # rows) [0..<nat 1] ?st1 = Inr st'"
    by simp
  have "sample_while (Suc (Suc n)) enc run a 1 st w = sample_while (Suc n) enc run a 1 st' ?w"
    using st run loop by (simp add: Let_def)
  also have "\<dots> = Some (Inr st', ?w)"
    using st' by simp
  finally have sw: "sample_while (Suc (Suc n)) enc run a 1 st w = Some (Inr st', ?w)" .
  have texts: "slot_texts enc st'
      = [concat (map (\<lambda>c. lstrip_nl (decode enc c)) (heap st 0)) @ lstrip_nl g]"
    using st' rt by (simp add: slot_texts_def)
  from re_search_group_no_term [OF search tr(2)] have nc: "\<not> contains T g" .
  then have ncl: "\<not> contains T (lstrip_nl g)" by (rule lstrip_nl_no_term)
  have shape: "if truthy_str (prefix a) \<and> \<not> include_prefix a
         then \<exists>before rest. s = before @ the (prefix a) @ g @ T @ rest
                \<and> (\<forall>ps ss. s = ps @ the (prefix a) @ ss \<longrightarrow> length before \<le> length ps)
                \<and> (\<forall>ps ss. g @ T @ rest = ps @ T @ ss \<longrightarrow> length g \<le> length ps)
         else \<exists>rest. s = g @ T @ rest
                \<and> (\<forall>ps ss. s = ps @ T @ ss \<longrightarrow> length g \<le> length ps)"
  proof (cases "truthy_str (prefix a) \<and> \<not> include_prefix a")
    case True
    then obtain p where p: "prefix a = Some p" by (auto simp: truthy_str_def split: option.splits)
    with True search have "re_search_group (Some p) T s = Some g" by simp
    moreover from True p have "truthy_str (Some p)" "\<not> include_prefix a" by simp_all
    ultimately show ?thesis
      using re_search_group_prefixed [of p T s g] p by simp
  next
    case False
    with search have "re_search_group None T s = Some g" by simp
    from re_search_group_plain [OF this] show ?thesis by (simp add: False)
  qed
  from sw st' texts nc ncl shape show ?thesis by blast
qed

theorem sample_pass_truncates_witness:
  "\<exists>st' w'. sample_while (Suc (Suc 0)) char_encoder (script_run [[[120, 97, 98, 99]]])
        (default_args\<lparr>truncate_arg := Some ''ab''\<rparr>) 1 (init_gen_state [[0]] 1) empty_world
        = Some (Inr st', w')
     \<and> truncated st' = [True] \<and> slot_texts char_encoder st' = [''x'']
     \<and> \<not> contains ''ab'' ''x''
     \<and> (\<exists>rest. ''xabc'' = ''x'' @ ''ab'' @ rest)"
proof -
  let ?a = "default_args\<lparr>truncate_arg := Some ''ab''\<rparr>"
  let ?st = "init_gen_state [[0]] 1"
  have st: "gen_text ?st = [0]" "truncated ?st = [False]" "context_tokens ?st = [[0]]"
    by (simp_all add: init_gen_state_def)
  have tr: "truncate_arg ?a = Some ''ab''" "''ab'' \<noteq> []" by simp_all
  have run: "script_run [[[120, 97, 98, 99]]] (session empty_world) [[0]]
        (min (if truthy_int (length_arg ?a) then the (length_arg ?a) else 1023)
             (1023 - int (length [0::int]))) = ([120, 97, 98, 99] # [], Suc 0)"
    by (simp add: script_run_def empty_world_def)
  have dec: "''xabc'' = decode char_encoder
          (if heap ?st 0 \<noteq> []
           then slice_from [120, 97, 98, 99] (text_split_index ?a (length [120, 97, 98, 99 :: int]))
           else if truthy_str (prefix ?a) \<or> truthy_list (batch_prefix ?a)
                then take 1 [0] @ [120, 97, 98, 99]
           else [120, 97, 98, 99])"
    by code_simp
  have search: "re_search_group
        (if truthy_str (prefix ?a) \<and> \<not> include_prefix ?a then prefix ?a else None) ''ab''
        ''xabc'' = Some ''x''"
    by code_simp
  have rt: "decode char_encoder (encode char_encoder ''x'') = ''x''"
    by code_simp
  have np: "\<not> (truthy_str (prefix ?a) \<and> \<not> include_prefix ?a)"
    by (simp add: default_args_def)
  from sample_pass_truncates [of ?st "[0]" ?a "''ab''" "script_run [[[120, 97, 98, 99]]]"
      empty_world "[120, 97, 98, 99]" "[]" "Suc 0" "''xabc''" char_encoder "''x''" 0,
      OF st tr run dec search rt] np
  obtain st' w' rest where
    sw: "sample_while (Suc (Suc 0)) char_encoder (script_run [[[120, 97, 98, 99]]]) ?a 1 ?st
           empty_world = Some (Inr st', w')"
    and tr': "truncated st' = [True]"
    and tx: "slot_texts char_encoder st'
        = [concat (map (\<lambda>c. lstrip_nl (decode char_encoder c)) (heap ?st 0)) @ lstrip_nl ''x'']"
    and nc: "\<not> contains ''ab'' ''x''"
    and sp: "''xabc'' = ''x'' @ ''ab'' @ rest"
    by auto
  have l: "lstrip_nl ''x'' = ''x''" by (simp add: lstrip_nl_def)
  have h: "heap ?st 0 = []" by (simp add: init_gen_state_def)
  from tx l h have tx': "slot_texts char_encoder st' = [''x'']" by simp
  from sw tr' tx' nc sp show ?thesis by blast
qed

text \<open>
  C3 as stated fails: with one slot, no length bound and \<open>T = ab\<close>, the first pass
  gives \<open>xa\<close> (no match) and the second pass gives \<open>bab\<close> after the split, which
  contains \<open>T\<close> and is cut to \<open>b\<close>. The returned string \<open>xab\<close> contains \<open>T\<close> across
  the boundary of the two chunks.
\<close>

theorem generate_truncate_counterexample:
  "generate (Suc (Suc (Suc (Suc 0)))) char_encoder
     (script_run [[[120, 97]], [[122, 122, 98, 97, 98]]])
     (default_args\<lparr>truncate_arg := Some ''ab'', length_arg := None, return_as_list := True\<rparr>)
     empty_world
   = Some (Inr (Some [''xab'']),
       \<lparr>session = 2, calls = [([[0]], 1022), ([[97]], 1022)], outputs = []\<rparr>)
   \<and> decode char_encoder [98, 97, 98] = ''bab''
   \<and> contains ''ab'' ''bab'' \<and> contains ''ab'' ''xab''"
  by code_simp

section \<open>The counter file\<close>

lemma digit_val_digit_char: "d < 10 \<Longrightarrow> digit_val (digit_char d) = Some d"
proof -
  assume "d < 10"
  then have "d \<in> {0, 1, 2, 3, 4, 5, 6, 7, 8, 9}" by auto
  then show ?thesis by (auto simp: digit_char_def digit_val_def)
qed

lemma digit_char_not_space: "d < 10 \<Longrightarrow> \<not> is_space (digit_char d)"
proof -
  assume "d < 10"
  then have "d \<in> {0, 1, 2, 3, 4, 5, 6, 7, 8, 9}" by auto
  then show ?thesis by (auto simp: digit_char_def is_space_def)
qed

lemma digit_char_not_sign:
  "d < 10 \<Longrightarrow> digit_char d \<noteq> CHR ''-'' \<and> digit_char d \<noteq> CHR ''+''"
proof -
  assume "d < 10"
  then have "d \<in> {0, 1, 2, 3, 4, 5, 6, 7, 8, 9}" by auto
  then show ?thesis by (auto simp: digit_char_def)
qed

lemma parse_digits_append:
  "parse_digits acc (xs @ ys) =
     (case parse_digits acc xs of None \<Rightarrow> None | Some a \<Rightarrow> parse_digits a ys)"
  by (induction xs arbitrary: acc) (auto split: option.splits)

lemma parse_digits_digits_of: "parse_digits 0 (digits_of n) = Some n"
proof (induction n rule: digits_of.induct)
  case (1 n)
  show ?case
  proof (cases "n < 10")
    case True
    then show ?thesis by (simp add: digits_of.simps [of n] digit_val_digit_char)
  next
    case False
    with 1 have "parse_digits 0 (digits_of (n div 10)) = Some (n div 10)" by simp
    with False show ?thesis
      by (simp add: digits_of.simps [of n] parse_digits_append digit_val_digit_char)
  qed
qed

lemma digits_of_shape:
  "digits_of n \<noteq> [] \<and> \<not> is_space (hd (digits_of n)) \<and> \<not> is_space (last (digits_of n))
   \<and> hd (digits_of n) \<noteq> CHR ''-'' \<and> hd (digits_of n) \<noteq> CHR ''+''"
proof (induction n rule: digits_of.induct)
  case (1 n)
  show ?case
  proof (cases "n < 10")
    case True
    then show ?thesis
      by (simp add: digits_of.simps [of n] digit_char_not_space digit_char_not_sign)
  next
    case False
    with 1 show ?thesis
      by (simp add: digits_of.simps [of n] digit_char_not_space)
  qed
qed

lemma py_strip_line:
  assumes "s \<noteq> []" and "\<not> is_space (hd s)" and "\<not> is_space (last s)"
  shows "py_strip (s @ [CHR 0x0A]) = s"
proof -
  have nl: "is_space (CHR 0x0A)" by (simp add: is_space_def)
  from assms have "dropWhile is_space (rev s) = rev s"
    by (cases "rev s") (auto simp: last_rev hd_rev)
  moreover from assms have "dropWhile is_space s = s" by (cases s) auto
  ultimately show ?thesis using nl by (simp add: py_strip_def)
qed

lemma parse_nat_digits_of: "parse_nat (digits_of n) = Some n"
  using digits_of_shape [of n] by (simp add: parse_nat_def parse_digits_digits_of)

lemma py_int_of_str_py_str: "py_int_of_str (py_str n @ [CHR 0x0A]) = Some n"
proof (cases "n < 0")
  case True
  let ?d = "digits_of (nat (- n))"
  have "\<not> is_space (CHR ''-'')" by (simp add: is_space_def)
  with digits_of_shape [of "nat (- n)"]
  have "py_strip ((CHR ''-'' # ?d) @ [CHR 0x0A]) = CHR ''-'' # ?d"
    by (intro py_strip_line) auto
  with True show ?thesis
    by (simp add: py_int_of_str_def py_str_def parse_nat_digits_of)
next
  case False
  let ?d = "digits_of (nat n)"
  from digits_of_shape [of "nat n"] have s: "py_strip (?d @ [CHR 0x0A]) = ?d"
    by (intro py_strip_line) auto
  from digits_of_shape [of "nat n"] obtain c cs where d: "?d = c # cs"
    "c \<noteq> CHR ''-''" "c \<noteq> CHR ''+''"
    by (cases ?d) auto
  from False s d parse_nat_digits_of [of "nat n"] show ?thesis
    by (simp add: py_int_of_str_def py_str_def)
qed

lemma ext_call_Inr:
  "ext_call env ev st = Inr (v, st') \<Longrightarrow>
     env (ticks st) = Inr v \<and> st' = st\<lparr>trace := trace st @ [ev], ticks := Suc (ticks st)\<rparr>"
  by (auto simp: ext_call_def split: sum.splits)


lemma save_Inr:
  "save env cfg st = Inr st' \<Longrightarrow>
     st' = st\<lparr>trace := trace st @ [Save (counter st - 1)], ticks := Suc (ticks st),
              files := (files st)(counter_path cfg \<mapsto> py_str (counter st - 1) @ [CHR 0x0A])\<rparr>"
  by (auto simp: save_def split: sum.splits prod.splits dest!: ext_call_Inr)


text \<open>
  C5. A successful \<open>save()\<close> leaves \<open>counter - 1\<close> and a newline in the counter file.
  A later run on the same counter file with \<open>restore_from = 'latest'\<close> reads that
  value and starts with the counter at that value plus one: without \<open>overwrite\<close> it
  enters the training loop at once; with \<open>overwrite\<close> it first removes the model files
  and saves, which writes the same value again, and then enters the loop with the same
  counter, unless one of these two calls raises.
\<close>

theorem save_counter_roundtrip:
  assumes "save env cfg st = Inr st'"
    and "counter_path cfg' = counter_path cfg"
    and "restore_from cfg' = ''latest''"
  shows "files st' (counter_path cfg) = Some (py_str (counter st - 1) @ [CHR 0x0A])
     \<and> initial_counter cfg' (files st') = Inr ((counter st - 1) + 1)
     \<and> (\<not> overwrite cfg' \<longrightarrow>
          finetune fuel env' cfg' (files st')
            = train_loop fuel env' cfg' ((counter st - 1) + 1)
                \<lparr>counter = (counter st - 1) + 1, avg_loss = (0, 0), files = files st',
                 trace = [], ticks = 0\<rparr>)
     \<and> (overwrite cfg' \<longrightarrow>
          finetune fuel env' cfg' (files st')
            = (case env' 0 of
                 Inl e \<Rightarrow> Some (Propagated e,
                     \<lparr>counter = (counter st - 1) + 1, avg_loss = (0, 0), files = files st',
                      trace = [Raise e], ticks = Suc 0\<rparr>)
               | Inr _ \<Rightarrow>
                   (case env' (Suc 0) of
                      Inl e \<Rightarrow> Some (Propagated e,
                          \<lparr>counter = (counter st - 1) + 1, avg_loss = (0, 0),
                           files = files st', trace = [RemoveModelFiles, Raise e],
                           ticks = Suc (Suc 0)\<rparr>)
                    | Inr _ \<Rightarrow>
                        train_loop fuel env' cfg' ((counter st - 1) + 1)
                          \<lparr>counter = (counter st - 1) + 1, avg_loss = (0, 0),
                           files = files st',
                           trace = [RemoveModelFiles, Save (counter st - 1)],
                           ticks = Suc (Suc 0)\<rparr>)))"
proof -
  let ?c = "(counter st - 1) + 1"
  let ?st0 = "\<lparr>counter = ?c, avg_loss = (0, 0), files = files st',
      trace = [], ticks = 0\<rparr>"
  from save_Inr [OF assms(1)]
  have f: "files st' (counter_path cfg) = Some (py_str (counter st - 1) @ [CHR 0x0A])"
    by simp
  with assms(2,3) have i: "initial_counter cfg' (files st') = Inr ?c"
    by (simp add: initial_counter_def py_int_of_str_py_str)
  have n: "\<not> overwrite cfg' \<Longrightarrow>
      finetune fuel env' cfg' (files st') = train_loop fuel env' cfg' ?c ?st0"
    using i by (simp add: finetune_def Let_def)
  from f assms(2)
  have idem: "(files st')(counter_path cfg' \<mapsto> py_str (counter st - 1) @ [CHR 0x0A]) = files st'"
    by (simp add: fun_upd_idem)
  have o: "finetune fuel env' cfg' (files st')
            = (case env' 0 of
                 Inl e \<Rightarrow> Some (Propagated e,
                     \<lparr>counter = ?c, avg_loss = (0, 0), files = files st',
                      trace = [Raise e], ticks = Suc 0\<rparr>)
               | Inr _ \<Rightarrow>
                   (case env' (Suc 0) of
                      Inl e \<Rightarrow> Some (Propagated e,
                          \<lparr>counter = ?c, avg_loss = (0, 0),
                           files = files st', trace = [RemoveModelFiles, Raise e],
                           ticks = Suc (Suc 0)\<rparr>)
                    | Inr _ \<Rightarrow>
                        train_loop fuel env' cfg' ?c
                          \<lparr>counter = ?c, avg_loss = (0, 0),
                           files = files st',
                           trace = [RemoveModelFiles, Save (counter st - 1)],
                           ticks = Suc (Suc 0)\<rparr>))"
    if "overwrite cfg'"
    using that i assms(3) idem
    by (simp add: finetune_def Let_def ext_call_def save_def split: sum.splits)
  from f i n o show ?thesis by blast
qed

theorem save_counter_roundtrip_witness:
  "files (start_state\<lparr>counter := 42, trace := [Save 41], ticks := Suc 0,
       files := [counter_path default_cfg \<mapsto> py_str 41 @ [CHR 0x0A]]\<rparr>)
     (counter_path default_cfg) = Some (''41'' @ [CHR 0x0A])
   \<and> initial_counter default_cfg [counter_path default_cfg \<mapsto> py_str 41 @ [CHR 0x0A]] = Inr 42
   \<and> finetune (Suc 0) (quiet_env 3) (default_cfg\<lparr>steps := 1, overwrite := True\<rparr>)
       [counter_path default_cfg \<mapsto> py_str 41 @ [CHR 0x0A]]
     = train_loop (Suc 0) (quiet_env 3) (default_cfg\<lparr>steps := 1, overwrite := True\<rparr>) 42
         \<lparr>counter = 42, avg_loss = (0, 0),
          files = [counter_path default_cfg \<mapsto> py_str 41 @ [CHR 0x0A]],
          trace = [RemoveModelFiles, Save 41], ticks = Suc (Suc 0)\<rparr>"
proof -
  let ?S = "start_state\<lparr>counter := 42, trace := [Save 41], ticks := Suc 0,
       files := [counter_path default_cfg \<mapsto> py_str 41 @ [CHR 0x0A]]\<rparr>"
  let ?cfg = "default_cfg\<lparr>steps := 1, overwrite := True\<rparr>"
  have h: "save (quiet_env 3) default_cfg (start_state\<lparr>counter := 42\<rparr>) = Inr ?S"
    by (simp add: save_def ext_call_def quiet_env_def start_state_def)
  have p: "counter_path default_cfg = counter_path default_cfg" ..
  have r: "restore_from default_cfg = ''latest''" by (simp add: default_cfg_def)
  have p': "counter_path ?cfg = counter_path default_cfg" by (simp add: counter_path_def)
  have r': "restore_from ?cfg = ''latest''" by (simp add: default_cfg_def)
  have o': "overwrite ?cfg" by simp
  have s: "py_str 41 = ''41''" by code_simp
  from save_counter_roundtrip [OF h p r, of 0 "quiet_env 3"]
    save_counter_roundtrip [OF h p' r', of "Suc 0" "quiet_env 3"] o' s
  show ?thesis
    by (simp add: start_state_def quiet_env_def)
qed

section \<open>The training loop\<close>

lemma compute_loop_Inr:
  "compute_loop env cfg k st = Inr st' \<Longrightarrow>
     st' = st\<lparr>trace := trace st @ concat (replicate k [SampleBatch (train_batch_size cfg), OptCompute]),
              ticks := ticks st + 2 * k\<rparr>"
proof (induction k arbitrary: st)
  case 0
  then show ?case by simp
next
  case (Suc k)
  from Suc.prems obtain v1 st1 v2 st2 where
    a: "ext_call env (SampleBatch (train_batch_size cfg)) st = Inr (v1, st1)"
    and b: "ext_call env OptCompute st1 = Inr (v2, st2)"
    and c: "compute_loop env cfg k st2 = Inr st'"
    by (auto split: sum.splits prod.splits)
  from Suc.IH [OF c] ext_call_Inr [OF a] ext_call_Inr [OF b] show ?case by simp
qed

lemma train_step_Inr:
  assumes "train_step env cfg st = Inr (v, st')"
  shows "trace st' = trace st @
       (if 1 < effective_accumulate cfg
        then OptReset # concat (replicate (nat (effective_accumulate cfg))
               [SampleBatch (train_batch_size cfg), OptCompute]) @ [OptApply]
        else [SampleBatch (train_batch_size cfg), ApplyStep])
     \<and> counter st' = counter st \<and> avg_loss st' = avg_loss st \<and> files st' = files st
     \<and> 0 < ticks st' \<and> env (ticks st' - 1) = Inr v"
proof (cases "1 < effective_accumulate cfg")
  case True
  with assms obtain v1 st1 st2 where
    a: "ext_call env OptReset st = Inr (v1, st1)"
    and b: "compute_loop env cfg (nat (effective_accumulate cfg)) st1 = Inr st2"
    and c: "ext_call env OptApply st2 = Inr (v, st')"
    by (auto simp: train_step_def split: sum.splits prod.splits)
  from ext_call_Inr [OF a] compute_loop_Inr [OF b] ext_call_Inr [OF c] True
  show ?thesis by simp
next
  case False
  with assms obtain v1 st1 where
    a: "ext_call env (SampleBatch (train_batch_size cfg)) st = Inr (v1, st1)"
    and c: "ext_call env ApplyStep st1 = Inr (v, st')"
    by (auto simp: train_step_def split: sum.splits prod.splits)
  from ext_call_Inr [OF a] ext_call_Inr [OF c] False show ?thesis by simp
qed

lemma counter_report_loss: "counter (report_loss cfg v s) = counter s"
  by (simp add: report_loss_def Let_def)

lemma loop_body_Continue:
  assumes "loop_body env cfg base st = Continue st'"
  shows "\<exists>st1 st2 st3 v.
       (st1 = st \<or> save env cfg st = Inr st1)
     \<and> (st2 = st1 \<or> (\<exists>x. ext_call env (GenerateSamples (counter st1)) st1 = Inr (x, st2)))
     \<and> train_step env cfg st2 = Inr (v, st3)
     \<and> print_every cfg \<noteq> 0
     \<and> st' = (report_loss cfg v (st3\<lparr>trace := trace st3 @ [AddSummary (counter st3)]\<rparr>))
               \<lparr>counter := counter st3 + 1\<rparr>"
proof -
  from assms have nb: "\<not> (steps cfg > 0 \<and> counter st = base + steps cfg)"
    by (auto simp: loop_body_def split: sum.splits prod.splits)
  with assms have se: "save_every cfg \<noteq> 0"
    by (auto simp: loop_body_def raise_here_def)
  let ?X = "if (counter st - 1) mod save_every cfg = 0 \<and> counter st > 1
            then save env cfg st else Inr st"
  from assms nb se obtain st1 where x: "?X = Inr st1"
    by (cases ?X) (auto simp: loop_body_def)
  then have s1: "st1 = st \<or> save env cfg st = Inr st1"
    by (auto split: if_splits)
  from assms nb se x have sa: "sample_every cfg \<noteq> 0"
    by (auto simp: loop_body_def raise_here_def)
  let ?Y = "if (counter st1 - 1) mod sample_every cfg = 0 \<and> counter st1 > 1
            then map_sum id snd (ext_call env (GenerateSamples (counter st1)) st1)
            else Inr st1"
  from assms nb se x sa obtain st2 where y: "?Y = Inr st2"
    by (cases ?Y) (auto simp: loop_body_def)
  then have s2: "st2 = st1 \<or> (\<exists>x. ext_call env (GenerateSamples (counter st1)) st1 = Inr (x, st2))"
    by (cases "ext_call env (GenerateSamples (counter st1)) st1") (auto split: if_splits)
  from assms nb se x sa y obtain v st3 where t: "train_step env cfg st2 = Inr (v, st3)"
    by (cases "train_step env cfg st2") (auto simp: loop_body_def)
  from assms nb se x sa y t have pe: "print_every cfg \<noteq> 0"
    by (auto simp: loop_body_def raise_here_def Let_def)
  from assms nb se x sa y t pe
  have "st' = (report_loss cfg v (st3\<lparr>trace := trace st3 @ [AddSummary (counter st3)]\<rparr>))
               \<lparr>counter := counter st3 + 1\<rparr>"
    by (simp add: loop_body_def Let_def counter_report_loss)
  with s1 s2 t pe show ?thesis by blast
qed


lemma pre_phase:
  assumes "st1 = st \<or> save env cfg st = Inr st1"
    and "st2 = st1 \<or> (\<exists>x. ext_call env (GenerateSamples (counter st1)) st1 = Inr (x, st2))"
  shows "\<exists>pre. trace st2 = trace st @ pre \<and> filter is_opt_event pre = []
     \<and> counter st2 = counter st \<and> avg_loss st2 = avg_loss st"
proof -
  from assms(1) obtain p1 where p1: "trace st1 = trace st @ p1" "filter is_opt_event p1 = []"
    "counter st1 = counter st" "avg_loss st1 = avg_loss st"
  proof
    assume "st1 = st"
    then show ?thesis by (intro that [of "[]"]) simp_all
  next
    assume "save env cfg st = Inr st1"
    from save_Inr [OF this] show ?thesis
      by (intro that [of "[Save (counter st - 1)]"]) (simp_all add: is_opt_event_def)
  qed
  from assms(2) obtain p2 where p2: "trace st2 = trace st1 @ p2" "filter is_opt_event p2 = []"
    "counter st2 = counter st1" "avg_loss st2 = avg_loss st1"
  proof
    assume "st2 = st1"
    then show ?thesis by (intro that [of "[]"]) simp_all
  next
    assume "\<exists>x. ext_call env (GenerateSamples (counter st1)) st1 = Inr (x, st2)"
    then obtain x where "ext_call env (GenerateSamples (counter st1)) st1 = Inr (x, st2)" ..
    from ext_call_Inr [OF this] show ?thesis
      by (intro that [of "[GenerateSamples (counter st1)]"]) (simp_all add: is_opt_event_def)
  qed
  from p1 p2 show ?thesis by (intro exI [of _ "p1 @ p2"]) simp
qed

text \<open>
  C9 (as amended). In an iteration of the training loop that completes, with \<open>A\<close> the
  argument \<open>accumulate_gradients\<close>: for the models 117M and 124M with \<open>A > 1\<close> the
  optimizer events are one reset, then \<open>A\<close> times a sampled batch and a gradient
  computation, then one apply. For \<open>A \<le> 1\<close>, and for every other model whatever \<open>A\<close>
  is (lines 184 to 187 set it to 1), they are one sampled batch and one direct apply.
\<close>

theorem loop_body_accumulates:
  assumes "loop_body env cfg base st = Continue st'"
  shows "take (length (trace st)) (trace st') = trace st
     \<and> filter is_opt_event (drop (length (trace st)) (trace st'))
        = (if model_name cfg \<in> set [''117M'', ''124M''] \<and> 1 < accumulate_gradients cfg
           then [OptReset]
                @ concat (replicate (nat (accumulate_gradients cfg))
                    [SampleBatch (train_batch_size cfg), OptCompute])
                @ [OptApply]
           else [SampleBatch (train_batch_size cfg), ApplyStep])"
proof -
  from loop_body_Continue [OF assms] obtain st1 st2 st3 v where
    a: "st1 = st \<or> save env cfg st = Inr st1"
    and b: "st2 = st1 \<or> (\<exists>x. ext_call env (GenerateSamples (counter st1)) st1 = Inr (x, st2))"
    and t: "train_step env cfg st2 = Inr (v, st3)"
    and st': "st' = (report_loss cfg v (st3\<lparr>trace := trace st3 @ [AddSummary (counter st3)]\<rparr>))
               \<lparr>counter := counter st3 + 1\<rparr>"
    by blast
  from pre_phase [OF a b] obtain pre where
    pre: "trace st2 = trace st @ pre" "filter is_opt_event pre = []" by blast
  let ?T = "if model_name cfg \<in> set [''117M'', ''124M''] \<and> 1 < accumulate_gradients cfg
           then [OptReset]
                @ concat (replicate (nat (accumulate_gradients cfg))
                    [SampleBatch (train_batch_size cfg), OptCompute])
                @ [OptApply]
           else [SampleBatch (train_batch_size cfg), ApplyStep]"
  have opt: "filter is_opt_event ?T = ?T"
    by (rule filter_True) (auto simp: is_opt_event_def)
  from train_step_Inr [OF t] have t3: "trace st3 = trace st2 @ ?T"
    by (simp add: effective_accumulate_def)
  obtain post where post: "trace st' = trace st3 @ post" "filter is_opt_event post = []"
  proof (cases "counter st3 mod print_every cfg = 0")
    case True
    with st' show ?thesis
      by (intro that [of "[AddSummary (counter st3),
            PrintLoss (counter st3) v
              ((fst (avg_loss st3) * (99 / 100) + v) / (snd (avg_loss st3) * (99 / 100) + 1))]"])
        (simp_all add: report_loss_def Let_def is_opt_event_def)
  next
    case False
    with st' show ?thesis
      by (intro that [of "[AddSummary (counter st3)]"])
        (simp_all add: report_loss_def is_opt_event_def)
  qed
  from pre t3 post have tr: "trace st' = trace st @ (pre @ ?T @ post)" by simp
  have "filter is_opt_event (pre @ ?T @ post) = ?T"
    unfolding filter_append pre(2) post(2) opt by simp
  with tr show ?thesis by simp
qed

theorem loop_body_accumulates_witness:
  "filter is_opt_event (drop (length ([] :: train_event list))
       [OptReset, SampleBatch 1, OptCompute, SampleBatch 1, OptCompute, SampleBatch 1,
        OptCompute, OptApply, AddSummary 1, PrintLoss 1 3 3])
     = [OptReset] @ concat (replicate (nat 3) [SampleBatch 1, OptCompute]) @ [OptApply]
   \<and> filter is_opt_event (drop (length ([] :: train_event list))
       [SampleBatch 1, ApplyStep, AddSummary 1, PrintLoss 1 3 3])
     = [SampleBatch 1, ApplyStep]"
proof -
  have h1: "loop_body (quiet_env 3) (default_cfg\<lparr>accumulate_gradients := 3\<rparr>) 1 start_state
     = Continue \<lparr>counter = 2, avg_loss = (3, 1), files = Map.empty,
         trace = [OptReset, SampleBatch 1, OptCompute, SampleBatch 1, OptCompute,
           SampleBatch 1, OptCompute, OptApply, AddSummary 1, PrintLoss 1 3 3],
         ticks = 8\<rparr>"
    by (simp add: train_eval eval_nat_numeral)
  have h2: "loop_body (quiet_env 3) (default_cfg\<lparr>accumulate_gradients := 1\<rparr>) 1 start_state
     = Continue \<lparr>counter = 2, avg_loss = (3, 1), files = Map.empty,
         trace = [SampleBatch 1, ApplyStep, AddSummary 1, PrintLoss 1 3 3], ticks = 2\<rparr>"
    by (simp add: train_eval)
  from loop_body_accumulates [OF h1] loop_body_accumulates [OF h2] show ?thesis
    by (simp add: default_cfg_def start_state_def)
qed

text \<open>
  C9, the claim as it was stated: with \<open>model_name = '355M'\<close> and
  \<open>accumulate_gradients = 3\<close>, an iteration samples one batch and applies it directly;
  there is no reset and there are not three gradient computations.
\<close>

theorem loop_body_accumulates_counterexample:
  "loop_body (quiet_env 3) (default_cfg\<lparr>model_name := ''355M'', accumulate_gradients := 3\<rparr>)
       1 start_state
     = Continue \<lparr>counter = 2, avg_loss = (3, 1), files = Map.empty,
         trace = [SampleBatch 1, ApplyStep, AddSummary 1, PrintLoss 1 3 3], ticks = 2\<rparr>"
  by (simp add: train_eval)

text \<open>
  C6 (as amended). In an iteration that completes, with \<open>v\<close> the loss returned by the
  apply call: when \<open>counter\<close> is a multiple of \<open>print_every\<close> the running average
  becomes \<open>(avg * 0.99 + v, weight * 0.99 + 1)\<close> and \<open>avg / weight\<close> is reported, which
  is \<open>v\<close> from the initial state \<open>(0, 0)\<close>; otherwise the running average is unchanged
  and nothing is reported.
\<close>

theorem loop_body_avg_loss:
  assumes "loop_body env cfg base st = Continue st'"
  shows "\<exists>v. 0 < ticks st' \<and> env (ticks st' - 1) = Inr v
     \<and> (counter st mod print_every cfg = 0 \<longrightarrow>
          avg_loss st' = (fst (avg_loss st) * (99 / 100) + v, snd (avg_loss st) * (99 / 100) + 1)
        \<and> last (trace st') = PrintLoss (counter st) v (fst (avg_loss st') / snd (avg_loss st'))
        \<and> (avg_loss st = (0, 0) \<longrightarrow> fst (avg_loss st') / snd (avg_loss st') = v))
     \<and> (counter st mod print_every cfg \<noteq> 0 \<longrightarrow>
          avg_loss st' = avg_loss st \<and> last (trace st') = AddSummary (counter st))"
proof -
  from loop_body_Continue [OF assms] obtain st1 st2 st3 v where
    a: "st1 = st \<or> save env cfg st = Inr st1"
    and b: "st2 = st1 \<or> (\<exists>x. ext_call env (GenerateSamples (counter st1)) st1 = Inr (x, st2))"
    and t: "train_step env cfg st2 = Inr (v, st3)"
    and st': "st' = (report_loss cfg v (st3\<lparr>trace := trace st3 @ [AddSummary (counter st3)]\<rparr>))
               \<lparr>counter := counter st3 + 1\<rparr>"
    by blast
  from pre_phase [OF a b] have c2: "counter st2 = counter st" "avg_loss st2 = avg_loss st"
    by auto
  from train_step_Inr [OF t] c2 have c3: "counter st3 = counter st" "avg_loss st3 = avg_loss st"
    and tk: "0 < ticks st3" "env (ticks st3 - 1) = Inr v"
    by simp_all
  have tk': "ticks st' = ticks st3" using st' by (simp add: report_loss_def Let_def)
  show ?thesis
  proof (cases "counter st mod print_every cfg = 0")
    case True
    with st' c3 have
      "avg_loss st' = (fst (avg_loss st) * (99 / 100) + v, snd (avg_loss st) * (99 / 100) + 1)"
      "last (trace st') = PrintLoss (counter st) v (fst (avg_loss st') / snd (avg_loss st'))"
      by (simp_all add: report_loss_def Let_def)
    with True tk tk' show ?thesis by (intro exI [of _ v]) auto
  next
    case False
    with st' c3 have "avg_loss st' = avg_loss st" "last (trace st') = AddSummary (counter st)"
      by (simp_all add: report_loss_def)
    with False tk tk' show ?thesis by (intro exI [of _ v]) auto
  qed
qed

theorem loop_body_avg_loss_witness:
  "(\<exists>v. quiet_env 3 (2 - 1) = Inr v
       \<and> ((3::real), (1::real)) = (0 * (99 / 100) + v, 0 * (99 / 100) + 1) \<and> 3 / 1 = v)
   \<and> (\<exists>v. quiet_env 3 (2 - 1) = Inr v
       \<and> last [SampleBatch 1, ApplyStep, AddSummary 1] = AddSummary 1)"
proof -
  have h1: "loop_body (quiet_env 3) (default_cfg\<lparr>accumulate_gradients := 1\<rparr>) 1 start_state
     = Continue \<lparr>counter = 2, avg_loss = (3, 1), files = Map.empty,
         trace = [SampleBatch 1, ApplyStep, AddSummary 1, PrintLoss 1 3 3], ticks = 2\<rparr>"
    by (simp add: train_eval)
  have h2: "loop_body (quiet_env 3)
       (default_cfg\<lparr>accumulate_gradients := 1, print_every := 2\<rparr>) 1 start_state
     = Continue \<lparr>counter = 2, avg_loss = (0, 0), files = Map.empty,
         trace = [SampleBatch 1, ApplyStep, AddSummary 1], ticks = 2\<rparr>"
    by (simp add: train_eval)
  from loop_body_avg_loss [OF h1] loop_body_avg_loss [OF h2] show ?thesis
    by (simp add: default_cfg_def start_state_def)
qed

text \<open>
  C6 as stated fails: with \<open>print_every = 2\<close> the first iteration (\<open>counter = 1\<close>)
  gets the loss 3 and leaves the running average at \<open>(0, 0)\<close>.
\<close>

theorem loop_body_avg_loss_counterexample:
  "loop_body (quiet_env 3) (default_cfg\<lparr>accumulate_gradients := 1, print_every := 2\<rparr>) 1
     start_state
   = Continue \<lparr>counter = 2, avg_loss = (0, 0), files = Map.empty,
       trace = [SampleBatch 1, ApplyStep, AddSummary 1], ticks = 2\<rparr>"
  by (simp add: train_eval)

lemma is_raise_simps [simp]:
  "is_raise (Raise e)"
  "\<not> is_raise (Save c)"
  "\<not> is_raise (GenerateSamples c)"
  "\<not> is_raise RemoveModelFiles"
  "\<not> is_raise OptReset"
  "\<not> is_raise (SampleBatch b)"
  "\<not> is_raise OptCompute"
  "\<not> is_raise OptApply"
  "\<not> is_raise ApplyStep"
  "\<not> is_raise (AddSummary c)"
  "\<not> is_raise (PrintLoss c x y)"
  "\<not> is_raise PrintInterrupted"
  by (simp_all add: is_raise_def)





















end
